theory Spec2Isabelle
  imports Complex_Main "HOL-Library.Product_Lexorder" "HOL-Library.List_Lexorder"
    "HOL-Library.AList"
begin

section \<open>Floating-point values\<close>

text \<open>
  The samplers compute with IEEE doubles (NumPy \<open>f8\<close>). A value is modelled as an
  extended real with a NaN: the special values behave as IEEE prescribes, a finite value is
  an exact real (rounding, overflow and the sign of zero are outside the model).
\<close>

datatype fl = NaN | NInf | Fin real | PInf

datatype error =
  ZeroDivisionError | IndexError | ValueError | AttributeError | RuntimeError
  | TypeError | AssertionError | KeyError

fun isnan :: "fl \<Rightarrow> bool" where
  "isnan NaN = True"
| "isnan _ = False"

fun isfinite :: "fl \<Rightarrow> bool" where
  "isfinite (Fin _) = True"
| "isfinite _ = False"

text \<open>IEEE comparisons: every comparison with a NaN is false.\<close>

fun fl_lt :: "fl \<Rightarrow> fl \<Rightarrow> bool" where
  "fl_lt NaN _ = False"
| "fl_lt _ NaN = False"
| "fl_lt NInf NInf = False"
| "fl_lt NInf _ = True"
| "fl_lt _ NInf = False"
| "fl_lt PInf _ = False"
| "fl_lt _ PInf = True"
| "fl_lt (Fin a) (Fin b) = (a < b)"

fun fl_eq :: "fl \<Rightarrow> fl \<Rightarrow> bool" where
  "fl_eq NaN _ = False"
| "fl_eq _ NaN = False"
| "fl_eq a b = (a = b)"

definition fl_le :: "fl \<Rightarrow> fl \<Rightarrow> bool" where
  "fl_le a b = (fl_lt a b \<or> fl_eq a b)"

definition fl_gt :: "fl \<Rightarrow> fl \<Rightarrow> bool" where
  "fl_gt a b = fl_lt b a"

definition fl_ge :: "fl \<Rightarrow> fl \<Rightarrow> bool" where
  "fl_ge a b = fl_le b a"

definition fl_ne :: "fl \<Rightarrow> fl \<Rightarrow> bool" where
  "fl_ne a b = (\<not> fl_eq a b)"

fun fneg :: "fl \<Rightarrow> fl" where
  "fneg NaN = NaN"
| "fneg NInf = PInf"
| "fneg PInf = NInf"
| "fneg (Fin a) = Fin (- a)"

fun fadd :: "fl \<Rightarrow> fl \<Rightarrow> fl" where
  "fadd NaN _ = NaN"
| "fadd _ NaN = NaN"
| "fadd PInf NInf = NaN"
| "fadd NInf PInf = NaN"
| "fadd PInf _ = PInf"
| "fadd _ PInf = PInf"
| "fadd NInf _ = NInf"
| "fadd _ NInf = NInf"
| "fadd (Fin a) (Fin b) = Fin (a + b)"

definition fsub :: "fl \<Rightarrow> fl \<Rightarrow> fl" where
  "fsub a b = fadd a (fneg b)"

text \<open>The sign of a non-NaN value: \<open>-1\<close>, \<open>0\<close> or \<open>1\<close>.\<close>

fun fsgn :: "fl \<Rightarrow> int" where
  "fsgn NaN = 0"
| "fsgn NInf = - 1"
| "fsgn PInf = 1"
| "fsgn (Fin a) = (if a < 0 then - 1 else if a = 0 then 0 else 1)"

definition signed_inf :: "int \<Rightarrow> fl" where
  "signed_inf s = (if s < 0 then NInf else if s = 0 then NaN else PInf)"

fun fmul :: "fl \<Rightarrow> fl \<Rightarrow> fl" where
  "fmul NaN _ = NaN"
| "fmul _ NaN = NaN"
| "fmul (Fin a) (Fin b) = Fin (a * b)"
| "fmul a b = signed_inf (fsgn a * fsgn b)"

text \<open>
  NumPy division: a finite value over zero is an infinity of the numerator's sign,
  \<open>0/0\<close> and \<open>inf/inf\<close> are NaN, a finite value over an infinity is zero.
\<close>

fun fdiv :: "fl \<Rightarrow> fl \<Rightarrow> fl" where
  "fdiv NaN _ = NaN"
| "fdiv _ NaN = NaN"
| "fdiv (Fin a) (Fin b) = (if b = 0 then signed_inf (fsgn (Fin a)) else Fin (a / b))"
| "fdiv (Fin a) _ = Fin 0"
| "fdiv a (Fin b) = signed_inf (fsgn a * (if b < 0 then - 1 else 1))"
| "fdiv _ _ = NaN"

fun fexp :: "fl \<Rightarrow> fl" where
  "fexp NaN = NaN"
| "fexp NInf = Fin 0"
| "fexp PInf = PInf"
| "fexp (Fin a) = Fin (exp a)"

fun flog :: "fl \<Rightarrow> fl" where
  "flog NaN = NaN"
| "flog NInf = NaN"
| "flog PInf = PInf"
| "flog (Fin a) = (if a < 0 then NaN else if a = 0 then NInf else Fin (ln a))"

definition flog1p :: "fl \<Rightarrow> fl" where
  "flog1p a = flog (fadd (Fin 1) a)"

text \<open>
  \<open>np.logaddexp\<close>, case by case as NumPy computes it: equal arguments (also two
  infinities of one sign) give \<open>x + log 2\<close>; otherwise the larger argument plus
  \<open>log1p (exp (- |x - y|))\<close>; a NaN difference is returned as it is.
\<close>

definition logaddexp :: "fl \<Rightarrow> fl \<Rightarrow> fl" where
  "logaddexp x y =
     (if fl_eq x y then fadd x (Fin (ln 2))
      else let tmp = fsub x y in
        if fl_gt tmp (Fin 0) then fadd x (flog1p (fexp (fneg tmp)))
        else if fl_le tmp (Fin 0) then fadd y (flog1p (fexp tmp))
        else tmp)"

section \<open>The integral state\<close>

text \<open>
  Class \<open>_NSintegralState\<close> of \<open>flowproposal/nestedsampler.py\<close>. The field
  \<open>nlive\<close> is the Python integer given to the constructor.
\<close>

record integral_state =
  nlive :: int
  iteration :: nat
  logZ :: fl
  oldZ :: fl
  logw :: fl
  info :: "fl list"
  logLs :: "fl list"
  log_vols :: "fl list"
  gradients :: "fl list"

definition reset :: "integral_state \<Rightarrow> integral_state" where
  "reset s = s\<lparr> iteration := 0, logZ := NInf, oldZ := NInf, logw := Fin 0,
                info := [Fin 0], logLs := [NInf], log_vols := [Fin 0],
                gradients := [Fin 0] \<rparr>"

text \<open>The constructor stores \<open>nlive\<close> and calls \<open>reset\<close>.\<close>

definition init_state :: "int \<Rightarrow> integral_state" where
  "init_state n = reset \<lparr> nlive = n, iteration = 0, logZ = NInf, oldZ = NInf,
                          logw = Fin 0, info = [], logLs = [], log_vols = [],
                          gradients = [] \<rparr>"

text \<open>
  The information estimate of one step, with its NaN clamp:
  \<open>exp (Wt - logZ) * logL + exp (oldZ - logZ) * (info[-1] + oldZ) - logZ\<close>.
\<close>

definition information :: "fl \<Rightarrow> fl \<Rightarrow> fl \<Rightarrow> fl \<Rightarrow> fl \<Rightarrow> fl" where
  "information Wt newZ oldz logL prev =
     (let i = fsub (fadd (fmul (fexp (fsub Wt newZ)) logL)
                         (fmul (fexp (fsub oldz newZ)) (fadd prev oldz)))
                   newZ
      in if isnan i then Fin 0 else i)"

text \<open>
  \<open>increment\<close>. The helper \<open>logsubexp\<close> lives in a module that is not part of the
  sources at hand, so it is the parameter \<open>lse\<close>. The step size \<open>- 1.0 / nlive\<close> is
  a Python division and raises for \<open>nlive = 0\<close>; reading \<open>[-1]\<close> of an empty history
  raises as well. The likelihood is an entry of a NumPy array, so the slope is a NumPy
  division and does not raise. The warning about a non-monotonic \<open>logL\<close> only logs.
\<close>

definition increment ::
  "(fl \<Rightarrow> fl \<Rightarrow> fl) \<Rightarrow> fl \<Rightarrow> int option \<Rightarrow> integral_state \<Rightarrow> error + integral_state"
where
  "increment lse logL nlive_arg s =
     (if logLs s = [] then Inl IndexError
      else
        let n = (case nlive_arg of None \<Rightarrow> nlive s | Some m \<Rightarrow> m) in
        if n = 0 then Inl ZeroDivisionError
        else
          let oldz = logZ s;
              logt = Fin (- 1 / real_of_int n);
              Wt = fadd (fadd (logw s) logL) (lse (Fin 0) logt);
              newZ = logaddexp (logZ s) Wt;
              cond = (isfinite oldz \<and> isfinite newZ \<and> isfinite logL)
          in
          if cond \<and> info s = [] then Inl IndexError
          else if log_vols s = [] then Inl IndexError
          else
            let info' = (if cond
                         then info s @ [information Wt newZ oldz logL (last (info s))]
                         else info s);
                logw' = fadd (logw s) logt;
                logLs' = logLs s @ [logL];
                log_vols' = log_vols s @ [logw'];
                grad = fdiv (fsub logL (last (logLs s)))
                            (fsub logw' (last (log_vols s)))
            in Inr (s\<lparr> logZ := newZ, info := info', logw := logw',
                       iteration := Suc (iteration s), logLs := logLs',
                       log_vols := log_vols', gradients := gradients s @ [grad] \<rparr>))"

text \<open>
  A sequence of \<open>increment\<close> calls, each with its \<open>logL\<close> and optional \<open>nlive\<close>
  override; the first exception ends the run.
\<close>

fun increments ::
  "(fl \<Rightarrow> fl \<Rightarrow> fl) \<Rightarrow> (fl \<times> int option) list \<Rightarrow> integral_state \<Rightarrow> error + integral_state"
where
  "increments lse [] s = Inr s"
| "increments lse (c # cs) s =
     (case increment lse (fst c) (snd c) s of
        Inl e \<Rightarrow> Inl e
      | Inr s' \<Rightarrow> increments lse cs s')"

text \<open>
  \<open>finalise\<close> stores and returns the trapezoidal estimate. \<open>log_integrate_log_trap\<close>
  comes from the same missing module and is the parameter \<open>trap\<close>.
\<close>

definition finalise ::
  "(fl list \<Rightarrow> fl list \<Rightarrow> fl) \<Rightarrow> integral_state \<Rightarrow> integral_state \<times> fl" where
  "finalise trap s = (let z = trap (logLs s) (log_vols s) in (s\<lparr> logZ := z \<rparr>, z))"

text \<open>
  Modelled from the spec: \<open>logsubexp\<close>, missing from the sources; the spec gives
  \<open>log (1 - exp logt)\<close> for the call \<open>logsubexp (0, logt)\<close>, that is
  \<open>x + log1p (- exp (y - x))\<close>.
\<close>

definition logsubexp :: "fl \<Rightarrow> fl \<Rightarrow> fl" where
  "logsubexp x y = fadd x (flog1p (fneg (fexp (fsub y x))))"

section \<open>Invariants of the integral state\<close>

text \<open>The shape every reachable state has.\<close>

definition hist_inv :: "integral_state \<Rightarrow> bool" where
  "hist_inv s \<longleftrightarrow>
     length (log_vols s) = length (logLs s) \<and>
     length (gradients s) = length (logLs s) \<and>
     iteration s = length (logLs s) - 1 \<and>
     logLs s \<noteq> [] \<and> info s \<noteq> [] \<and>
     length (info s) \<le> length (logLs s)"

lemma hist_inv_reset: "hist_inv (reset s)"
  by (simp add: hist_inv_def reset_def)

lemma hist_inv_increment:
  assumes "hist_inv s" and "increment lse l n s = Inr s'"
  shows "hist_inv s'"
  using assms
  by (auto simp: hist_inv_def increment_def Let_def split: if_splits)

lemma hist_inv_increments:
  "hist_inv s \<Longrightarrow> increments lse cs s = Inr s' \<Longrightarrow> hist_inv s'"
proof (induction cs arbitrary: s)
  case Nil
  then show ?case by simp
next
  case (Cons c cs)
  then show ?case
    by (auto split: sum.splits dest: hist_inv_increment)
qed

lemma increment_total:
  assumes "hist_inv s" and "(case n of None \<Rightarrow> nlive s | Some m \<Rightarrow> m) \<noteq> 0"
  shows "\<exists>s'. increment lse l n s = Inr s'"
proof -
  from assms(1) have "logLs s \<noteq> []" "info s \<noteq> []" "log_vols s \<noteq> []"
    by (auto simp: hist_inv_def)
  with assms(2) show ?thesis
    by (simp add: increment_def Let_def)
qed

lemma increment_nlive: "increment lse l n s = Inr s' \<Longrightarrow> nlive s' = nlive s"
  by (auto simp: increment_def Let_def split: if_splits)

text \<open>C1, as the spec words it, fails at the first step after a reset: the evidence is
  still \<open>-inf\<close>, the guard of the information update is false and \<open>info\<close> keeps its
  length while the other three histories grow.\<close>

definition history_lengths :: "integral_state \<Rightarrow> nat \<times> nat \<times> nat \<times> nat" where
  "history_lengths s =
     (length (log_vols s), length (logLs s), length (info s), length (gradients s))"

theorem lengths_after_first_increment:
  "map_sum id history_lengths (increment logsubexp (Fin 0) None (reset (init_state 1)))
     = Inr (2, 2, 1, 2)"
  by (simp add: increment_def reset_def init_state_def history_lengths_def Let_def)

text \<open>C1 (amended): after \<open>reset\<close> and after every sequence of \<open>increment\<close> calls
  that returns, \<open>log_vols\<close>, \<open>logLs\<close> and \<open>gradients\<close> have one length, the iteration
  counter is that length minus one, and \<open>info\<close> is not empty and never longer than
  \<open>logLs\<close>.\<close>

theorem history_lengths_invariant:
  assumes "increments lse cs (reset s0) = Inr s"
  shows "length (log_vols s) = length (logLs s) \<and>
         length (gradients s) = length (logLs s) \<and>
         iteration s = length (logLs s) - 1 \<and>
         1 \<le> length (info s) \<and> length (info s) \<le> length (logLs s)"
proof -
  have "hist_inv s"
    using hist_inv_increments [OF hist_inv_reset assms] .
  then show ?thesis
    by (cases "info s") (auto simp: hist_inv_def)
qed

theorem history_lengths_invariant_witness:
  "\<exists>s. increments logsubexp [(Fin 0, None), (Fin 1, Some 2)] (reset (init_state 3)) = Inr s \<and>
       length (log_vols s) = length (logLs s) \<and>
       length (gradients s) = length (logLs s) \<and>
       iteration s = length (logLs s) - 1 \<and>
       1 \<le> length (info s) \<and> length (info s) \<le> length (logLs s)"
proof -
  let ?s0 = "reset (init_state 3)"
  obtain s1 where s1: "increment logsubexp (Fin 0) None ?s0 = Inr s1"
    using increment_total [OF hist_inv_reset [of "init_state 3"], where n = None]
    by (auto simp: reset_def init_state_def)
  have inv1: "hist_inv s1"
    using hist_inv_increment [OF hist_inv_reset s1] .
  obtain s2 where s2: "increment logsubexp (Fin 1) (Some 2) s1 = Inr s2"
    using increment_total [OF inv1, where n = "Some 2"] by auto
  have run: "increments logsubexp [(Fin 0, None), (Fin 1, Some 2)] ?s0 = Inr s2"
    using s1 s2 by simp
  show ?thesis
    using run history_lengths_invariant [OF run] by blast
qed

section \<open>Volume arithmetic\<close>

text \<open>What \<open>k\<close> default steps leave in \<open>logw\<close> and \<open>log_vols\<close>.\<close>

definition vols_ok :: "int \<Rightarrow> integral_state \<Rightarrow> bool" where
  "vols_ok n s \<longleftrightarrow>
     nlive s = n \<and> hist_inv s \<and>
     logw s = Fin (- real (iteration s) / real_of_int n) \<and>
     log_vols s = map (\<lambda>j. Fin (- real j / real_of_int n)) [0..<Suc (iteration s)]"

lemma vols_ok_reset: "nlive s0 = n \<Longrightarrow> vols_ok n (reset s0)"
  by (simp add: vols_ok_def hist_inv_reset) (simp add: reset_def)

lemma vols_ok_increment:
  assumes ok: "vols_ok n s" and n: "n \<noteq> 0"
  shows "\<exists>s'. increment lse l None s = Inr s' \<and> vols_ok n s'"
proof -
  from ok have inv: "hist_inv s" and nl: "nlive s = n"
    by (auto simp: vols_ok_def)
  obtain s' where s': "increment lse l None s = Inr s'"
    using increment_total [OF inv, where n = None] nl n by auto
  have inv': "hist_inv s'"
    using hist_inv_increment [OF inv s'] .
  have ne: "logLs s \<noteq> []" "log_vols s \<noteq> []" "info s \<noteq> []"
    using inv by (auto simp: hist_inv_def)
  have it: "iteration s' = Suc (iteration s)"
    using s' ne nl n by (auto simp: increment_def Let_def split: if_splits)
  have lw: "logw s' = fadd (logw s) (Fin (- 1 / real_of_int n))"
    using s' ne nl n by (auto simp: increment_def Let_def split: if_splits)
  have lv: "log_vols s' = log_vols s @ [logw s']"
    using s' ne nl n by (auto simp: increment_def Let_def split: if_splits)
  have arith: "- real (iteration s) / real_of_int n + - 1 / real_of_int n
                 = - real (Suc (iteration s)) / real_of_int n"
    using n by (simp add: field_simps)
  have "logw s = Fin (- real (iteration s) / real_of_int n)"
    using ok by (simp add: vols_ok_def)
  then have "logw s' = Fin (- real (iteration s) / real_of_int n + - 1 / real_of_int n)"
    using lw by (simp only: fadd.simps)
  then have lw': "logw s' = Fin (- real (Suc (iteration s)) / real_of_int n)"
    by (simp only: arith)
  have "log_vols s = map (\<lambda>j. Fin (- real j / real_of_int n)) [0..<Suc (iteration s)]"
    using ok by (simp add: vols_ok_def)
  then have "log_vols s' = map (\<lambda>j. Fin (- real j / real_of_int n)) [0..<Suc (iteration s)]
                @ [Fin (- real (Suc (iteration s)) / real_of_int n)]"
    using lv lw' by (simp only:)
  then have lv': "log_vols s' = map (\<lambda>j. Fin (- real j / real_of_int n)) [0..<Suc (Suc (iteration s))]"
    by (simp only: upt_Suc_append [of 0 "Suc (iteration s)"] le0 map_append list.map)
  have nl': "nlive s' = n"
    using increment_nlive [OF s'] nl by simp
  have "vols_ok n s'"
    unfolding vols_ok_def it using nl' inv' lw' lv' by blast
  with s' show ?thesis by blast
qed

lemma vols_ok_increments:
  assumes "n \<noteq> 0"
  shows "vols_ok n s \<Longrightarrow>
    \<exists>s'. increments lse (map (\<lambda>l. (l, None)) ls) s = Inr s' \<and> vols_ok n s' \<and>
         iteration s' = iteration s + length ls"
proof (induction ls arbitrary: s)
  case Nil
  then show ?case by simp
next
  case (Cons l ls)
  obtain s1 where s1: "increment lse l None s = Inr s1" and ok1: "vols_ok n s1"
    using vols_ok_increment [OF Cons.prems assms] by blast
  have it1: "iteration s1 = Suc (iteration s)"
    using s1 by (auto simp: increment_def Let_def split: if_splits)
  from Cons.IH [OF ok1] obtain s' where
    "increments lse (map (\<lambda>l. (l, None)) ls) s1 = Inr s'" "vols_ok n s'"
    "iteration s' = iteration s1 + length ls"
    by blast
  with s1 it1 show ?case by simp
qed

lemma decreasing_vols:
  assumes "0 < n"
  shows "sorted_wrt fl_gt (map (\<lambda>j. Fin (- real j / real_of_int n)) [0..<m])"
proof -
  have "sorted_wrt (\<lambda>i j. fl_gt (Fin (- real i / real_of_int n)) (Fin (- real j / real_of_int n)))
          [0..<m]"
  proof (rule sorted_wrt_mono_rel [OF _ sorted_wrt_upt])
    fix i j :: nat
    assume "i < j"
    with assms show "fl_gt (Fin (- real i / real_of_int n)) (Fin (- real j / real_of_int n))"
      by (simp add: fl_gt_def divide_strict_right_mono)
  qed
  then show ?thesis
    by (simp add: sorted_wrt_map)
qed

text \<open>
  The volume recurrence in exact arithmetic: for a positive \<open>nlive\<close>, \<open>k\<close> default steps
  after a reset return, and leave the real number \<open>- j / nlive\<close> in \<open>log_vols[j]\<close> for
  every \<open>j \<le> k\<close>; the list is strictly decreasing. Finite values are exact reals in
  this model. The source adds doubles and rounds every sum (three sums of \<open>-1.0 / 10\<close>
  give \<open>-0.30000000000000004\<close>), so nothing is said here of the bits that \<open>log_vols\<close>
  holds.
\<close>

lemma log_vols_after_default_steps:
  assumes "0 < n" and "nlive s0 = n"
  shows "\<exists>s. increments lse (map (\<lambda>l. (l, None)) ls) (reset s0) = Inr s \<and>
             length (log_vols s) = Suc (length ls) \<and>
             log_vols s ! length ls = Fin (- real (length ls) / real_of_int n) \<and>
             log_vols s = map (\<lambda>j. Fin (- real j / real_of_int n)) [0..<Suc (length ls)] \<and>
             sorted_wrt fl_gt (log_vols s)"
proof -
  from assms(1) have n0: "n \<noteq> 0" by simp
  obtain s where run: "increments lse (map (\<lambda>l. (l, None)) ls) (reset s0) = Inr s"
    and ok: "vols_ok n s" and it: "iteration s = iteration (reset s0) + length ls"
    using vols_ok_increments [OF n0 vols_ok_reset [OF assms(2)]] by blast
  have it': "iteration s = length ls"
    using it by (simp add: reset_def)
  have lv: "log_vols s = map (\<lambda>j. Fin (- real j / real_of_int n)) [0..<Suc (length ls)]"
    using ok it' by (simp add: vols_ok_def)
  have nth: "log_vols s ! length ls = Fin (- real (length ls) / real_of_int n)"
    unfolding lv by (simp add: nth_append)
  have dec: "sorted_wrt fl_gt (log_vols s)"
    unfolding lv using decreasing_vols [OF assms(1)] .
  from lv have len: "length (log_vols s) = Suc (length ls)" by simp
  from run len nth lv dec show ?thesis by blast
qed

lemma log_vols_after_default_steps_example:
  "\<exists>s. increments logsubexp (map (\<lambda>l. (l, None)) [Fin 1, Fin 2, Fin 3]) (reset (init_state 4))
          = Inr s \<and>
       log_vols s = [Fin 0, Fin (- 1 / 4), Fin (- 2 / 4), Fin (- 3 / 4)] \<and>
       log_vols s ! 3 = Fin (- 3 / 4) \<and>
       sorted_wrt fl_gt (log_vols s)"
proof -
  have n: "(0::int) < 4" by simp
  have nl: "nlive (init_state 4) = 4" by (simp add: init_state_def reset_def)
  have up: "[0..<Suc (length [Fin 1, Fin 2, Fin 3])] = [0, 1, 2, 3]"
    by (simp add: upt_rec)
  show ?thesis
    using log_vols_after_default_steps [OF n nl, of logsubexp "[Fin 1, Fin 2, Fin 3]"]
    unfolding up by auto
qed

section \<open>The live-point store\<close>

text \<open>
  A live point is a row of the structured array: the model's named parameters, then
  \<open>logP\<close> and \<open>logL\<close>.
\<close>

record live_point =
  coords :: "(string \<times> fl) list"
  logP :: fl
  logL :: fl

text \<open>
  NumPy sorts and searches floats with the comparison
  \<open>a < b || (b != b && a == a)\<close>, which puts every NaN after every number.
\<close>

definition np_lt :: "fl \<Rightarrow> fl \<Rightarrow> bool" where
  "np_lt a b = (fl_lt a b \<or> (fl_ne b b \<and> fl_eq a a))"

text \<open>
  \<open>np.searchsorted (a, v)\<close>, side \<open>left\<close>: the bisection loop of NumPy's
  \<open>binsearch\<close>.
\<close>

function binsearch :: "fl list \<Rightarrow> fl \<Rightarrow> nat \<Rightarrow> nat \<Rightarrow> nat" where
  "binsearch a key min_idx max_idx =
     (if min_idx < max_idx
      then let mid_idx = min_idx + (max_idx - min_idx) div 2 in
           if np_lt (a ! mid_idx) key
           then binsearch a key (mid_idx + 1) max_idx
           else binsearch a key min_idx mid_idx
      else min_idx)"
  by pat_completeness auto
termination
  by (relation "measure (\<lambda>(a, key, min_idx, max_idx). max_idx - min_idx)") auto

declare binsearch.simps [simp del]

definition searchsorted :: "fl list \<Rightarrow> fl \<Rightarrow> nat" where
  "searchsorted a v = binsearch a v 0 (length a)"

text \<open>
  Slices of a one-dimensional array. A negative bound counts from the end and every
  bound is clipped to the array. Assigning to a slice needs a value of the slice's length,
  or of length one (it is broadcast); anything else is NumPy's
  "could not broadcast input array" \<open>ValueError\<close>.
\<close>

definition clip_bound :: "nat \<Rightarrow> int \<Rightarrow> nat" where
  "clip_bound n j = (if j < 0 then nat (max 0 (j + int n)) else min (nat j) n)"

definition slice_get :: "'a list \<Rightarrow> int \<Rightarrow> int \<Rightarrow> 'a list" where
  "slice_get xs i j =
     (let a = clip_bound (length xs) i; b = clip_bound (length xs) j
      in take (b - a) (drop a xs))"

definition slice_set :: "'a list \<Rightarrow> int \<Rightarrow> int \<Rightarrow> 'a list \<Rightarrow> error + 'a list" where
  "slice_set xs i j vs =
     (let a = clip_bound (length xs) i; b = clip_bound (length xs) j; m = b - a in
      if length vs = m then Inr (take a xs @ vs @ drop (a + m) xs)
      else if length vs = 1 then Inr (take a xs @ replicate m (hd vs) @ drop (a + m) xs)
      else Inl ValueError)"

definition set_item :: "'a list \<Rightarrow> int \<Rightarrow> 'a \<Rightarrow> error + 'a list" where
  "set_item xs i v =
     (let j = (if i < 0 then i + int (length xs) else i) in
      if 0 \<le> j \<and> j < int (length xs) then Inr (xs[nat j := v]) else Inl IndexError)"

text \<open>\<open>NestedSampler.insert_live_point\<close>: the new store and the returned index.\<close>

definition insert_live_point ::
  "('a live_point_scheme) list \<Rightarrow> 'a live_point_scheme
     \<Rightarrow> error + ('a live_point_scheme) list \<times> int" where
  "insert_live_point live_points live_point =
     (let index = int (searchsorted (map logL live_points) (logL live_point)) in
      case slice_set live_points 0 (index - 1) (slice_get live_points 1 index) of
        Inl e \<Rightarrow> Inl e
      | Inr shifted \<Rightarrow>
          (case set_item shifted (index - 1) live_point of
             Inl e \<Rightarrow> Inl e
           | Inr stored \<Rightarrow> Inr (stored, index - 1)))"

definition np_key :: "fl \<Rightarrow> nat \<times> real" where
  "np_key a = (case a of NInf \<Rightarrow> (0, 0) | Fin r \<Rightarrow> (1, r) | PInf \<Rightarrow> (2, 0) | NaN \<Rightarrow> (3, 0))"

lemma np_lt_key: "np_lt a b \<longleftrightarrow> np_key a < np_key b"
  by (cases a; cases b) (auto simp: np_lt_def np_key_def fl_ne_def)

lemma fl_lt_key: "fl_lt a b \<Longrightarrow> np_key a < np_key b"
  by (cases a; cases b) (auto simp: np_key_def)

lemma fl_le_key: "fl_le a b \<Longrightarrow> np_key a \<le> np_key b"
  by (cases a; cases b) (auto simp: np_key_def fl_le_def)

lemma binsearch_correct:
  "sorted (map np_key a) \<Longrightarrow> lo \<le> hi \<Longrightarrow> hi \<le> length a \<Longrightarrow>
   (\<forall>i<lo. np_lt (a ! i) key) \<Longrightarrow>
   (\<forall>i. hi \<le> i \<and> i < length a \<longrightarrow> \<not> np_lt (a ! i) key) \<Longrightarrow>
   lo \<le> binsearch a key lo hi \<and> binsearch a key lo hi \<le> hi \<and>
   (\<forall>i<binsearch a key lo hi. np_lt (a ! i) key) \<and>
   (\<forall>i. binsearch a key lo hi \<le> i \<and> i < length a \<longrightarrow> \<not> np_lt (a ! i) key)"
proof (induction a key lo hi rule: binsearch.induct)
  case (1 a key lo hi)
  note srt = "1.prems"(1)
  let ?mid = "lo + (hi - lo) div 2"
  show ?case
  proof (cases "lo < hi")
    case False
    then have "binsearch a key lo hi = lo"
      by (subst binsearch.simps) simp
    with False "1.prems" show ?thesis by auto
  next
    case True
    have mid: "lo \<le> ?mid" "?mid < hi" using True by auto
    show ?thesis
    proof (cases "np_lt (a ! ?mid) key")
      case lt: True
      have below: "\<forall>i<?mid + 1. np_lt (a ! i) key"
      proof (intro allI impI)
        fix i assume "i < ?mid + 1"
        then have "i \<le> ?mid" by simp
        with mid "1.prems"(3) have "np_key (a ! i) \<le> np_key (a ! ?mid)"
          using srt by (auto simp: sorted_iff_nth_mono)
        with lt show "np_lt (a ! i) key" by (simp add: np_lt_key)
      qed
      have eq: "binsearch a key lo hi = binsearch a key (?mid + 1) hi"
        using True lt by (subst binsearch.simps) (simp add: Let_def)
      have le: "?mid + 1 \<le> hi" using mid by simp
      note ih = "1.IH"(1) [OF True refl lt srt le "1.prems"(3) below "1.prems"(5)]
      show ?thesis unfolding eq using ih mid by auto
    next
      case ge: False
      have above: "\<forall>i. ?mid \<le> i \<and> i < length a \<longrightarrow> \<not> np_lt (a ! i) key"
      proof (intro allI impI)
        fix i assume "?mid \<le> i \<and> i < length a"
        then have "np_key (a ! ?mid) \<le> np_key (a ! i)"
          using srt by (auto simp: sorted_iff_nth_mono)
        with ge show "\<not> np_lt (a ! i) key" by (auto simp: np_lt_key)
      qed
      have eq: "binsearch a key lo hi = binsearch a key lo ?mid"
        using True ge by (subst binsearch.simps) (simp add: Let_def)
      have le: "?mid \<le> length a" using mid "1.prems"(3) by simp
      note ih = "1.IH"(2) [OF True refl ge srt mid(1) le "1.prems"(4) above]
      show ?thesis unfolding eq using ih mid by auto
    qed
  qed
qed

lemma searchsorted_correct:
  assumes "sorted (map np_key a)"
  shows "searchsorted a v \<le> length a"
    and "\<forall>i<searchsorted a v. np_lt (a ! i) v"
    and "\<forall>i. searchsorted a v \<le> i \<and> i < length a \<longrightarrow> \<not> np_lt (a ! i) v"
proof -
  have "0 \<le> binsearch a v 0 (length a) \<and> binsearch a v 0 (length a) \<le> length a \<and>
        (\<forall>i<binsearch a v 0 (length a). np_lt (a ! i) v) \<and>
        (\<forall>i. binsearch a v 0 (length a) \<le> i \<and> i < length a \<longrightarrow> \<not> np_lt (a ! i) v)"
    by (rule binsearch_correct [OF assms]) auto
  then show "searchsorted a v \<le> length a"
    and "\<forall>i<searchsorted a v. np_lt (a ! i) v"
    and "\<forall>i. searchsorted a v \<le> i \<and> i < length a \<longrightarrow> \<not> np_lt (a ! i) v"
    unfolding searchsorted_def by blast+
qed

lemma key_sorted_of_le: "sorted_wrt fl_le a \<Longrightarrow> sorted (map np_key a)"
  unfolding sorted_map
  by (erule sorted_wrt_mono_rel [rotated]) (simp add: fl_le_key)

lemma fl_le_of_key: "\<not> isnan a \<Longrightarrow> \<not> isnan b \<Longrightarrow> np_key a \<le> np_key b \<Longrightarrow> fl_le a b"
  by (cases a; cases b) (auto simp: np_key_def fl_le_def)

lemma le_sorted_of_key:
  "sorted (map np_key a) \<Longrightarrow> \<forall>x\<in>set a. \<not> isnan x \<Longrightarrow> sorted_wrt fl_le a"
  unfolding sorted_map
  by (erule sorted_wrt_mono_rel [rotated]) (simp add: fl_le_of_key)

text \<open>With a rank \<open>k\<close> between 1 and the length, the call stores the point at \<open>k - 1\<close>.\<close>

lemma insert_live_point_ranked:
  assumes keq: "searchsorted (map logL xs) (logL new) = k" and kpos: "0 < k"
    and kle: "k \<le> length xs"
  shows "insert_live_point xs new
           = Inr (take (k - 1) (tl xs) @ new # drop k xs, int k - 1)"
proof -
  from kpos kle have n: "xs \<noteq> []" by auto
  have get: "slice_get xs 1 (int k) = take (k - 1) (tl xs)"
    using kpos kle n by (simp add: slice_get_def clip_bound_def drop_Suc)
  have len: "length (take (k - 1) (tl xs)) = k - 1"
    using kpos kle by simp
  have set: "slice_set xs 0 (int k - 1) (take (k - 1) (tl xs))
               = Inr (take (k - 1) (tl xs) @ drop (k - 1) xs)"
    using kpos kle len by (simp add: slice_set_def clip_bound_def Let_def)
  have "xs ! (k - 1) # drop (Suc (k - 1)) xs = drop (k - 1) xs"
    using kpos kle by (intro Cons_nth_drop_Suc) simp
  then have dr: "drop (k - 1) xs = xs ! (k - 1) # drop k xs"
    using kpos by simp
  have upd: "(take (k - 1) (tl xs) @ drop (k - 1) xs)[k - 1 := new]
               = take (k - 1) (tl xs) @ new # drop k xs"
    unfolding dr using len by (simp add: list_update_append)
  have idx: "nat (int k - 1) = k - 1" "0 \<le> int k - 1"
    "int k - 1 < int (length (take (k - 1) (tl xs) @ drop (k - 1) xs))"
    using kpos kle by auto
  have item: "set_item (take (k - 1) (tl xs) @ drop (k - 1) xs) (int k - 1) new
                = Inr (take (k - 1) (tl xs) @ new # drop k xs)"
    unfolding set_item_def Let_def using idx upd by simp
  show ?thesis
    unfolding insert_live_point_def Let_def keq get
    by (simp only: set item sum.case)
qed

lemma insert_live_point_rank0:
  assumes "searchsorted (map logL xs) (logL new) = 0"
  shows "2 \<le> length xs \<Longrightarrow> insert_live_point xs new = Inl ValueError"
    and "xs = [] \<Longrightarrow> insert_live_point xs new = Inl IndexError"
    and "length xs = 1 \<Longrightarrow> insert_live_point xs new = Inr ([new], - 1)"
proof -
  show "insert_live_point xs new = Inl ValueError" if "2 \<le> length xs"
    using that assms
    by (simp add: insert_live_point_def slice_get_def slice_set_def clip_bound_def Let_def)
  show "insert_live_point xs new = Inl IndexError" if "xs = []"
    using that assms
    by (simp add: insert_live_point_def slice_get_def slice_set_def clip_bound_def
        set_item_def Let_def)
  show "insert_live_point xs new = Inr ([new], - 1)" if "length xs = 1"
  proof -
    from that obtain x where "xs = [x]"
      by (cases xs) auto
    with assms show ?thesis
      by (simp add: insert_live_point_def slice_get_def slice_set_def clip_bound_def
          set_item_def Let_def)
  qed
qed

lemma sorted_shift_insert:
  assumes srt: "sorted (map np_key L)" and kpos: "0 < k" and kle: "k \<le> length L"
    and below: "\<forall>i<k. np_lt (L ! i) v"
    and above: "\<forall>i. k \<le> i \<and> i < length L \<longrightarrow> \<not> np_lt (L ! i) v"
  shows "sorted (map np_key (take (k - 1) (tl L) @ v # drop k L))"
proof -
  have lo: "np_key x \<le> np_key v" if "x \<in> set (take (k - 1) (tl L))" for x
  proof -
    have "take (k - 1) (tl L) = tl (take k L)"
      using kpos by (cases k) (simp_all add: tl_take)
    with that have "x \<in> set (take k L)"
      by (metis list.sel(2) list.set_sel(2) empty_iff empty_set)
    then obtain i where "i < k" "i < length L" "x = L ! i"
      using kle by (auto simp: in_set_conv_nth)
    with below show ?thesis
      by (auto simp: np_lt_key)
  qed
  have hi: "np_key v \<le> np_key x" if "x \<in> set (drop k L)" for x
  proof -
    from that obtain i where "i < length L - k" "x = L ! (k + i)"
      by (auto simp: in_set_conv_nth)
    then have "k + i < length L" by simp
    with above [rule_format, of "k + i"] \<open>x = L ! (k + i)\<close> show ?thesis
      by (simp add: np_lt_key not_less)
  qed
  have "sorted (take (k - 1) (tl (map np_key L)))"
    by (rule sorted_wrt_take [OF sorted_tl [OF srt]])
  then have s1: "sorted (map np_key (take (k - 1) (tl L)))"
    by (simp only: map_tl [symmetric] take_map)
  have "sorted (drop k (map np_key L))"
    by (rule sorted_wrt_drop [OF srt])
  then have s2: "sorted (map np_key (drop k L))"
    by (simp only: drop_map)
  show ?thesis
    using s1 s2 lo hi by (fastforce simp: sorted_append intro: order_trans)
qed

lemma le_sorted_tail_not_nan:
  assumes "sorted_wrt fl_le L" and "x \<in> set (tl L)"
  shows "\<not> isnan x"
proof (cases L)
  case Nil
  with assms show ?thesis by simp
next
  case (Cons a t)
  with assms have "fl_le a x" by auto
  then show ?thesis
    by (cases a; cases x) (auto simp: fl_le_def)
qed

lemma np_lt_not_nan: "\<not> isnan v \<Longrightarrow> np_lt a v = fl_lt a v"
  by (cases a; cases v) (auto simp: np_lt_def fl_ne_def)

text \<open>What the precondition gives: the rank and where the point goes.\<close>

lemma insert_live_point_above_worst:
  assumes srt: "sorted_wrt fl_le (map logL xs)" and ne: "xs \<noteq> []"
    and gt: "fl_gt (logL new) (logL (xs ! 0))"
    and keq: "k = searchsorted (map logL xs) (logL new)"
  shows "0 < k" and "k \<le> length xs"
    and "insert_live_point xs new = Inr (take (k - 1) (tl xs) @ new # drop k xs, int k - 1)"
    and "sorted_wrt fl_le (map logL (take (k - 1) (tl xs) @ new # drop k xs))"
    and "\<forall>i<k. fl_lt (logL (xs ! i)) (logL new)"
    and "\<forall>i. k \<le> i \<and> i < length xs \<longrightarrow> \<not> fl_lt (logL (xs ! i)) (logL new)"
proof -
  let ?L = "map logL xs" and ?v = "logL new"
  have ks: "sorted (map np_key ?L)"
    by (rule key_sorted_of_le [OF srt])
  note ss = searchsorted_correct [OF ks, of ?v, folded keq]
  have lt0: "fl_lt (?L ! 0) ?v"
    using gt ne by (simp add: fl_gt_def)
  then have vn: "\<not> isnan ?v"
    by (cases "?L ! 0"; cases ?v) auto
  from lt0 have "np_lt (?L ! 0) ?v"
    by (simp add: np_lt_def)
  with ss(3) ne show kpos: "0 < k"
    by (cases k) auto
  from ss(1) show kle: "k \<le> length xs" by simp
  show "insert_live_point xs new = Inr (take (k - 1) (tl xs) @ new # drop k xs, int k - 1)"
    by (rule insert_live_point_ranked [OF keq [symmetric] kpos kle])
  have below: "\<forall>i<k. np_lt (?L ! i) ?v" and
    above: "\<forall>i. k \<le> i \<and> i < length ?L \<longrightarrow> \<not> np_lt (?L ! i) ?v"
    using ss by auto
  from below kle show "\<forall>i<k. fl_lt (logL (xs ! i)) (logL new)"
    by (auto simp: np_lt_not_nan [OF vn])
  from above show "\<forall>i. k \<le> i \<and> i < length xs \<longrightarrow> \<not> fl_lt (logL (xs ! i)) (logL new)"
    by (auto simp: np_lt_not_nan [OF vn])
  have kl: "k \<le> length ?L" using kle by simp
  have eq: "map logL (take (k - 1) (tl xs) @ new # drop k xs)
              = take (k - 1) (tl ?L) @ ?v # drop k ?L"
    by (simp add: take_map drop_map map_tl [symmetric])
  have keys: "sorted (map np_key (take (k - 1) (tl ?L) @ ?v # drop k ?L))"
    by (rule sorted_shift_insert [OF ks kpos kl below above])
  have nonan: "\<forall>x \<in> set (take (k - 1) (tl ?L) @ ?v # drop k ?L). \<not> isnan x"
  proof
    fix x assume "x \<in> set (take (k - 1) (tl ?L) @ ?v # drop k ?L)"
    then consider "x \<in> set (take (k - 1) (tl ?L))" | "x = ?v" | "x \<in> set (drop k ?L)"
      by auto
    then show "\<not> isnan x"
    proof cases
      case 1
      then have "x \<in> set (tl ?L)" by (rule in_set_takeD)
      then show ?thesis by (rule le_sorted_tail_not_nan [OF srt])
    next
      case 2
      with vn show ?thesis by simp
    next
      case 3
      have "drop k ?L = drop (k - 1) (tl ?L)"
        using kpos by (cases k) (simp_all add: drop_Suc)
      with 3 have "x \<in> set (tl ?L)" by (auto dest: in_set_dropD)
      then show ?thesis by (rule le_sorted_tail_not_nan [OF srt])
    qed
  qed
  show "sorted_wrt fl_le (map logL (take (k - 1) (tl xs) @ new # drop k xs))"
    unfolding eq by (rule le_sorted_of_key [OF keys nonan])
qed

text \<open>C3: for a store sorted ascending by \<open>logL\<close> and a new point whose \<open>logL\<close> is
  strictly greater than that of the rank-0 element, \<open>insert_live_point\<close> returns
  \<open>k - 1\<close>, where \<open>k\<close> is the binary-search rank of the new \<open>logL\<close> in the
  \<open>logL\<close> column (the entries before \<open>k\<close> are smaller, those from \<open>k\<close> on are not);
  the store keeps its length, stays sorted, has the new point in slot \<open>k - 1\<close>, the
  index lies in \<open>[0, nlive)\<close>, and \<open>k = 0\<close> does not occur.\<close>

theorem insert_live_point_correct:
  assumes "sorted_wrt fl_le (map logL xs)" and "xs \<noteq> []"
    and "fl_gt (logL new) (logL (xs ! 0))"
    and "k = searchsorted (map logL xs) (logL new)"
  shows "\<exists>xs'. insert_live_point xs new = Inr (xs', int k - 1) \<and>
           xs' = take (k - 1) (tl xs) @ new # drop k xs \<and>
           length xs' = length xs \<and>
           sorted_wrt fl_le (map logL xs') \<and>
           xs' ! (k - 1) = new \<and>
           0 \<le> int k - 1 \<and> int k - 1 < int (length xs) \<and> k \<noteq> 0 \<and>
           (\<forall>i<k. fl_lt (logL (xs ! i)) (logL new)) \<and>
           (\<forall>i. k \<le> i \<and> i < length xs \<longrightarrow> \<not> fl_lt (logL (xs ! i)) (logL new))"
proof -
  note f = insert_live_point_above_worst [OF assms]
  let ?xs' = "take (k - 1) (tl xs) @ new # drop k xs"
  have len: "length ?xs' = length xs"
    using f(1) f(2) by simp
  have "length (take (k - 1) (tl xs)) = k - 1"
    using f(1) f(2) by simp
  then have nth: "?xs' ! (k - 1) = new"
    by (metis nth_append_length)
  from f len nth show ?thesis
    by (intro exI [of _ ?xs']) auto
qed

definition lp :: "real \<Rightarrow> live_point" where
  "lp l = \<lparr> coords = [], logP = Fin 0, logL = Fin l \<rparr>"

lemma searchsorted_example: "searchsorted [Fin 1, Fin 2, Fin 3] (Fin (5 / 2)) = 2"
  by (simp add: searchsorted_def binsearch.simps np_lt_def fl_ne_def)

theorem insert_live_point_correct_witness:
  "insert_live_point [lp 1, lp 2, lp 3] (lp (5 / 2)) = Inr ([lp 2, lp (5 / 2), lp 3], 1) \<and>
   sorted_wrt fl_le (map logL [lp 2, lp (5 / 2), lp 3]) \<and>
   [lp 2, lp (5 / 2), lp 3] ! 1 = lp (5 / 2)"
proof -
  have k: "2 = searchsorted (map logL [lp 1, lp 2, lp 3]) (logL (lp (5 / 2)))"
    using searchsorted_example by (simp add: lp_def)
  have srt: "sorted_wrt fl_le (map logL [lp 1, lp 2, lp 3])"
    by (simp add: lp_def fl_le_def)
  have gt: "fl_gt (logL (lp (5 / 2))) (logL ([lp 1, lp 2, lp 3] ! 0))"
    by (simp add: lp_def fl_gt_def)
  show ?thesis
    using insert_live_point_correct [OF srt _ gt k] by auto
qed

text \<open>The bisection stays within its bounds, and it passes a first entry that is below the
  key, on any array: neither needs the array sorted.\<close>

lemma binsearch_bounds:
  "lo \<le> hi \<Longrightarrow> lo \<le> binsearch a key lo hi \<and> binsearch a key lo hi \<le> hi"
proof (induction a key lo hi rule: binsearch.induct)
  case (1 a key lo hi)
  let ?mid = "lo + (hi - lo) div 2"
  show ?case
  proof (cases "lo < hi")
    case False
    then have "binsearch a key lo hi = lo"
      by (subst binsearch.simps) simp
    with "1.prems" show ?thesis by simp
  next
    case True
    have mid: "lo \<le> ?mid" "?mid < hi" using True by auto
    show ?thesis
    proof (cases "np_lt (a ! ?mid) key")
      case lt: True
      have eq: "binsearch a key lo hi = binsearch a key (?mid + 1) hi"
        using True lt by (subst binsearch.simps) (simp add: Let_def)
      have le: "?mid + 1 \<le> hi" using mid by simp
      note ih = "1.IH"(1) [OF True refl lt le]
      show ?thesis unfolding eq using ih mid by auto
    next
      case ge: False
      have eq: "binsearch a key lo hi = binsearch a key lo ?mid"
        using True ge by (subst binsearch.simps) (simp add: Let_def)
      note ih = "1.IH"(2) [OF True refl ge mid(1)]
      show ?thesis unfolding eq using ih mid by auto
    qed
  qed
qed

lemma binsearch_positive:
  "np_lt (a ! 0) key \<Longrightarrow> lo \<le> hi \<Longrightarrow> (lo = 0 \<longrightarrow> 0 < hi) \<Longrightarrow> 0 < binsearch a key lo hi"
proof (induction a key lo hi rule: binsearch.induct)
  case (1 a key lo hi)
  note first = "1.prems"(1)
  let ?mid = "lo + (hi - lo) div 2"
  show ?case
  proof (cases "lo < hi")
    case False
    then have eq: "binsearch a key lo hi = lo"
      by (subst binsearch.simps) simp
    from False "1.prems" have "0 < lo" by auto
    with eq show ?thesis by simp
  next
    case True
    have mid: "lo \<le> ?mid" "?mid < hi" using True by auto
    show ?thesis
    proof (cases "np_lt (a ! ?mid) key")
      case lt: True
      have eq: "binsearch a key lo hi = binsearch a key (?mid + 1) hi"
        using True lt by (subst binsearch.simps) (simp add: Let_def)
      have le: "?mid + 1 \<le> hi" using mid by simp
      have "?mid + 1 \<le> binsearch a key (?mid + 1) hi"
        using binsearch_bounds [OF le] by simp
      then show ?thesis unfolding eq by simp
    next
      case ge: False
      have eq: "binsearch a key lo hi = binsearch a key lo ?mid"
        using True ge by (subst binsearch.simps) (simp add: Let_def)
      have "?mid \<noteq> 0"
      proof
        assume "?mid = 0"
        with ge first show False by simp
      qed
      then have pos: "lo = 0 \<longrightarrow> 0 < ?mid" by auto
      note ih = "1.IH"(2) [OF True refl ge first mid(1) pos]
      show ?thesis unfolding eq using ih .
    qed
  qed
qed

lemma searchsorted_above_first:
  assumes ne: "xs \<noteq> []" and gt: "fl_gt (logL new) (logL (xs ! 0))"
  shows "0 < searchsorted (map logL xs) (logL new)"
    and "searchsorted (map logL xs) (logL new) \<le> length xs"
proof -
  have "fl_lt (map logL xs ! 0) (logL new)"
    using gt ne by (simp add: fl_gt_def)
  then have first: "np_lt (map logL xs ! 0) (logL new)"
    by (simp add: np_lt_def)
  have pos: "(0::nat) = 0 \<longrightarrow> 0 < length (map logL xs)"
    using ne by simp
  show "0 < searchsorted (map logL xs) (logL new)"
    unfolding searchsorted_def by (rule binsearch_positive [OF first _ pos]) simp
  show "searchsorted (map logL xs) (logL new) \<le> length xs"
    unfolding searchsorted_def using binsearch_bounds [of 0 "length (map logL xs)"] by simp
qed

text \<open>C10, as stated, fails for a store of one point: with rank 0 the shift assigns an
  empty slice to an empty slice, the write goes to slot \<open>-1\<close> and the call returns
  \<open>-1\<close> instead of failing.\<close>

theorem insert_live_point_single_rank0:
  "searchsorted (map logL [lp 1]) (logL (lp 0)) = 0 \<and>
   insert_live_point [lp 1] (lp 0) = Inr ([lp 0], - 1)"
  by (simp add: insert_live_point_def searchsorted_def binsearch.simps np_lt_def fl_ne_def
      slice_get_def slice_set_def clip_bound_def set_item_def lp_def Let_def)

text \<open>C10 (amended): when the binary search yields rank 0 the index is \<open>-1\<close>; a store
  of two or more points then fails in the shift (a slice of length \<open>nlive - 1\<close> is
  assigned an empty slice) and an empty store fails in the write. Under the precondition
  \<open>new.logL > live_points[0].logL\<close> the rank is not 0 and the call returns, with the
  index \<open>rank - 1\<close> in \<open>[0, nlive - 1]\<close>.\<close>

theorem insert_live_point_partial:
  "(searchsorted (map logL xs) (logL new) = 0 \<and> 2 \<le> length xs
      \<longrightarrow> insert_live_point xs new = Inl ValueError) \<and>
   (searchsorted (map logL xs) (logL new) = 0 \<and> xs = []
      \<longrightarrow> insert_live_point xs new = Inl IndexError) \<and>
   (xs \<noteq> [] \<and> fl_gt (logL new) (logL (xs ! 0))
      \<longrightarrow> searchsorted (map logL xs) (logL new) \<noteq> 0 \<and>
          (\<exists>xs' i. insert_live_point xs new = Inr (xs', i) \<and>
                   i = int (searchsorted (map logL xs) (logL new)) - 1 \<and>
                   0 \<le> i \<and> i \<le> int (length xs) - 1))"
proof (intro conjI impI)
  assume "searchsorted (map logL xs) (logL new) = 0 \<and> 2 \<le> length xs"
  then show "insert_live_point xs new = Inl ValueError"
    using insert_live_point_rank0(1) by blast
next
  assume "searchsorted (map logL xs) (logL new) = 0 \<and> xs = []"
  then show "insert_live_point xs new = Inl IndexError"
    using insert_live_point_rank0(2) by blast
next
  assume a: "xs \<noteq> [] \<and> fl_gt (logL new) (logL (xs ! 0))"
  then have ne: "xs \<noteq> []" and gt: "fl_gt (logL new) (logL (xs ! 0))" by auto
  from searchsorted_above_first(1) [OF ne gt]
  show "searchsorted (map logL xs) (logL new) \<noteq> 0" by simp
next
  assume a: "xs \<noteq> [] \<and> fl_gt (logL new) (logL (xs ! 0))"
  define k where "k = searchsorted (map logL xs) (logL new)"
  from a have ne: "xs \<noteq> []" and gt: "fl_gt (logL new) (logL (xs ! 0))" by auto
  have kpos: "0 < k" and kle: "k \<le> length xs"
    unfolding k_def by (rule searchsorted_above_first [OF ne gt])+
  have "0 \<le> int k - 1" "int k - 1 \<le> int (length xs) - 1"
    using kpos kle by auto
  with insert_live_point_ranked [OF k_def [symmetric] kpos kle]
  show "\<exists>xs' i. insert_live_point xs new = Inr (xs', i) \<and>
          i = int (searchsorted (map logL xs) (logL new)) - 1 \<and>
          0 \<le> i \<and> i \<le> int (length xs) - 1"
    unfolding k_def by blast
qed

theorem insert_live_point_partial_witness:
  "insert_live_point [lp 1, lp 2] (lp 0) = Inl ValueError \<and>
   insert_live_point ([] :: live_point list) (lp 0) = Inl IndexError \<and>
   (\<exists>xs' i. insert_live_point [lp 1, lp 2] (lp 3) = Inr (xs', i) \<and> 0 \<le> i \<and> i \<le> 1)"
proof -
  have r0: "searchsorted (map logL [lp 1, lp 2]) (logL (lp 0)) = 0"
    by (simp add: searchsorted_def binsearch.simps np_lt_def fl_ne_def lp_def)
  have r1: "searchsorted (map logL ([] :: live_point list)) (logL (lp 0)) = 0"
    by (simp add: searchsorted_def binsearch.simps)
  have gt: "fl_gt (logL (lp 3)) (logL ([lp 1, lp 2] ! 0))"
    by (simp add: lp_def fl_gt_def)
  have a: "insert_live_point [lp 1, lp 2] (lp 0) = Inl ValueError"
    using insert_live_point_partial [of "[lp 1, lp 2]" "lp 0"] r0 by simp
  have b: "insert_live_point ([] :: live_point list) (lp 0) = Inl IndexError"
    using insert_live_point_partial [of "[] :: live_point list" "lp 0"] r1 by simp
  have c: "\<exists>xs' i. insert_live_point [lp 1, lp 2] (lp 3) = Inr (xs', i) \<and> 0 \<le> i \<and> i \<le> 1"
    using insert_live_point_partial [of "[lp 1, lp 2]" "lp 3"] gt by auto
  from a b c show ?thesis by blast
qed

section \<open>Leaving the classical loop\<close>

text \<open>
  The proposals are collaborators. The sampler reads and writes four things of a
  proposal: whether its pool is open (\<open>pool is not None\<close>), whether its buffer has
  candidates, its training count and \<open>ns_acceptance\<close>. \<open>self.proposal\<close> is a
  reference to one of the two proposal objects the sampler owns.
\<close>

record proposal_state =
  pool :: bool
  populated :: bool
  training_count :: nat
  ns_acceptance :: fl

datatype proposal_ref = Uninformed_proposal | Flow_proposal

text \<open>
  Calls on collaborators (the proposal, the files, the KS test on the insertion indices,
  the checkpoint) are recorded, in order, together with the calls on the integral state.
\<close>

datatype call =
    Close_pool
  | Increment fl int
  | Update_state
  | Finalise
  | Write_nested_samples
  | Write_evidence
  | KS_test_final "int list"
  | Checkpoint
  | Reset_model_weights
  | Train "live_point list"

text \<open>
  The fields of \<open>NestedSampler\<close> that the modelled methods read and write. Fields that
  share a name with the integral state carry the prefix \<open>ns_\<close>. \<open>training_frequency\<close>
  is \<open>None\<close> for \<open>np.inf\<close>; \<open>memory\<close> is an integer (\<open>False\<close> is \<open>0\<close>).
\<close>

record sampler =
  ns_nlive :: int
  ns_iteration :: int
  live_points :: "live_point list"
  nested_samples :: "live_point list"
  state :: integral_state
  ns_info :: "fl list"
  insertion_indices :: "int list"
  logLmin :: fl
  logLmax :: fl
  condition :: fl
  min_likelihood :: "fl list"
  max_likelihood :: "fl list"
  logZ_history :: "fl list"
  dZ_history :: "fl list"
  mean_acceptance_history :: "fl list"
  checkpointing :: bool
  uninformed_sampling :: bool
  acceptance_history :: "fl list"
  uninformed_acceptance_threshold :: fl
  maximum_uninformed :: int
  mean_block_acceptance :: fl
  block_acceptance :: fl
  block_iteration :: int
  acceptance_threshold :: fl
  last_updated :: int
  cooldown :: int
  retrain_acceptance :: bool
  training_frequency :: "int option"
  train_on_empty :: bool
  force_train :: bool
  resumed :: bool
  reset_weights :: real
  memory :: int
  training_iterations :: "int list"
  max_count :: int
  proposal :: proposal_ref
  uninformed_proposal :: proposal_state
  flow_proposal :: proposal_state
  calls :: "call list"

definition the_proposal :: "sampler \<Rightarrow> proposal_state" where
  "the_proposal smp =
     (case proposal smp of
        Uninformed_proposal \<Rightarrow> uninformed_proposal smp
      | Flow_proposal \<Rightarrow> flow_proposal smp)"

definition map_proposal :: "(proposal_state \<Rightarrow> proposal_state) \<Rightarrow> sampler \<Rightarrow> sampler" where
  "map_proposal f smp =
     (case proposal smp of
        Uninformed_proposal \<Rightarrow> smp\<lparr> uninformed_proposal := f (uninformed_proposal smp) \<rparr>
      | Flow_proposal \<Rightarrow> smp\<lparr> flow_proposal := f (flow_proposal smp) \<rparr>)"

text \<open>
  The loop \<open>for i, p in enumerate (self.live_points)\<close>: one \<open>increment\<close> with the
  override \<open>nlive - i\<close>, then the point is appended to the nested samples.
\<close>

fun final_adjustments ::
  "(fl \<Rightarrow> fl \<Rightarrow> fl) \<Rightarrow> nat \<Rightarrow> live_point list \<Rightarrow> sampler \<Rightarrow> error + sampler" where
  "final_adjustments lse i [] smp = Inr smp"
| "final_adjustments lse i (p # ps) smp =
     (case increment lse (logL p) (Some (ns_nlive smp - int i)) (state smp) of
        Inl e \<Rightarrow> Inl e
      | Inr st \<Rightarrow>
          final_adjustments lse (Suc i) ps
            (smp\<lparr> state := st,
                  nested_samples := nested_samples smp @ [p],
                  calls := calls smp @ [Increment (logL p) (ns_nlive smp - int i)] \<rparr>))"

text \<open>\<open>mean_acceptance\<close>: \<open>np.mean\<close> of the acceptance history (NaN when empty).\<close>

definition mean_acceptance :: "sampler \<Rightarrow> fl" where
  "mean_acceptance smp =
     fdiv (foldl fadd (Fin 0) (acceptance_history smp))
          (Fin (real (length (acceptance_history smp))))"

text \<open>
  \<open>update_state (force=True)\<close>. The tests \<open>iteration % (nlive // 10)\<close> and
  \<open>iteration % nlive\<close> are evaluated before \<open>or force\<close> and raise when the divisor
  is zero. With \<open>force\<close> the rolling KS test is skipped. What is stored of the model's
  counter and of the proposal's population, and the plots, is left out: it comes from
  collaborators and touches nothing modelled here.
\<close>

definition update_state_forced :: "sampler \<Rightarrow> error + sampler" where
  "update_state_forced smp =
     (if ns_nlive smp div 10 = 0 \<or> ns_nlive smp = 0 then Inl ZeroDivisionError
      else
        let smp1 = smp\<lparr> min_likelihood := min_likelihood smp @ [logLmin smp],
                        max_likelihood := max_likelihood smp @ [logLmax smp],
                        logZ_history := logZ_history smp @ [logZ (state smp)],
                        dZ_history := dZ_history smp @ [condition smp],
                        mean_acceptance_history :=
                          mean_acceptance_history smp @ [mean_acceptance smp],
                        calls := calls smp @ [Update_state] \<rparr>;
            smp2 = (if uninformed_sampling smp1
                    then smp1\<lparr> block_acceptance := Fin 0, block_iteration := 0 \<rparr>
                    else smp1)
        in Inr (map_proposal (\<lambda>p. p\<lparr> ns_acceptance := mean_block_acceptance smp2 \<rparr>) smp2))"

text \<open>
  \<open>nested_sampling_loop\<close> from the end of the \<open>while\<close> loop to its
  \<open>return self.state.logZ, np.array (self.nested_samples)\<close>.
\<close>

definition loop_exit ::
  "(fl \<Rightarrow> fl \<Rightarrow> fl) \<Rightarrow> (fl list \<Rightarrow> fl list \<Rightarrow> fl) \<Rightarrow> bool \<Rightarrow> sampler
     \<Rightarrow> error + sampler \<times> (fl \<times> live_point list)" where
  "loop_exit lse trap save smp0 =
     (let smp1 = (if pool (the_proposal smp0)
                  then smp0\<lparr> calls := calls smp0 @ [Close_pool] \<rparr>
                  else smp0) in
      case final_adjustments lse 0 (live_points smp1) smp1 of
        Inl e \<Rightarrow> Inl e
      | Inr smp2 \<Rightarrow>
          (case update_state_forced smp2 of
             Inl e \<Rightarrow> Inl e
           | Inr smp3 \<Rightarrow>
               let smp4 = smp3\<lparr> state := fst (finalise trap (state smp3)),
                                 calls := calls smp3 @ [Finalise] \<rparr>;
                   smp5 = smp4\<lparr> ns_info := info (state smp4) \<rparr>;
                   smp6 = (if save
                           then smp5\<lparr> calls := calls smp5
                                          @ [Write_nested_samples, Write_evidence] \<rparr>
                           else smp5);
                   smp7 = smp6\<lparr> calls := calls smp6
                                       @ [KS_test_final (insertion_indices smp6)] \<rparr>;
                   smp8 = (if checkpointing smp7
                           then smp7\<lparr> calls := calls smp7 @ [Checkpoint] \<rparr>
                           else smp7)
               in Inr (smp8, (logZ (state smp8), nested_samples smp8))))"

text \<open>The \<open>increment\<close> calls of the final adjustments, as a list.\<close>

definition final_calls :: "int \<Rightarrow> nat \<Rightarrow> live_point list \<Rightarrow> (fl \<times> int option) list" where
  "final_calls n i ps = map (\<lambda>(j, p). (logL p, Some (n - int j))) (zip [i..<i + length ps] ps)"

lemma final_calls_Cons:
  "final_calls n i (p # ps) = (logL p, Some (n - int i)) # final_calls n (Suc i) ps"
  by (simp add: final_calls_def upt_rec)

lemma final_adjustments_run:
  "final_adjustments lse i ps smp = Inr smp' \<Longrightarrow>
     increments lse (final_calls (ns_nlive smp) i ps) (state smp) = Inr (state smp') \<and>
     nested_samples smp' = nested_samples smp @ ps \<and>
     calls smp' = calls smp @ map (\<lambda>(l, n). Increment l (the n)) (final_calls (ns_nlive smp) i ps) \<and>
     ns_nlive smp' = ns_nlive smp \<and> live_points smp' = live_points smp \<and>
     insertion_indices smp' = insertion_indices smp \<and>
     checkpointing smp' = checkpointing smp"
proof (induction ps arbitrary: i smp)
  case Nil
  then show ?case by (auto simp: final_calls_def)
next
  case (Cons p ps)
  from Cons.prems obtain st where
    st: "increment lse (logL p) (Some (ns_nlive smp - int i)) (state smp) = Inr st"
    by (auto split: sum.splits)
  let ?smp1 = "smp\<lparr> state := st, nested_samples := nested_samples smp @ [p],
                    calls := calls smp @ [Increment (logL p) (ns_nlive smp - int i)] \<rparr>"
  from Cons.prems st have "final_adjustments lse (Suc i) ps ?smp1 = Inr smp'"
    by simp
  from Cons.IH [OF this] st show ?case
    by (simp add: final_calls_Cons)
qed

lemma final_adjustments_total:
  "hist_inv (state smp) \<Longrightarrow> \<forall>j<length ps. ns_nlive smp \<noteq> int (i + j) \<Longrightarrow>
     \<exists>smp'. final_adjustments lse i ps smp = Inr smp'"
proof (induction ps arbitrary: i smp)
  case Nil
  then show ?case by simp
next
  case (Cons p ps)
  from Cons.prems(2) have nz: "ns_nlive smp - int i \<noteq> 0"
    by (auto dest: spec [of _ 0])
  obtain st where
    st: "increment lse (logL p) (Some (ns_nlive smp - int i)) (state smp) = Inr st"
    using increment_total [OF Cons.prems(1), where n = "Some (ns_nlive smp - int i)"] nz
    by auto
  have inv: "hist_inv st"
    using hist_inv_increment [OF Cons.prems(1) st] .
  let ?smp1 = "smp\<lparr> state := st, nested_samples := nested_samples smp @ [p],
                    calls := calls smp @ [Increment (logL p) (ns_nlive smp - int i)] \<rparr>"
  have "\<forall>j<length ps. ns_nlive ?smp1 \<noteq> int (Suc i + j)"
    using Cons.prems(2) by (auto dest: spec [of _ "Suc j" for j])
  moreover have "hist_inv (state ?smp1)" using inv by simp
  ultimately obtain smp' where "final_adjustments lse (Suc i) ps ?smp1 = Inr smp'"
    using Cons.IH by blast
  with st show ?case by simp
qed

lemma final_calls_logLs: "map fst (final_calls n i ps) = map logL ps"
proof (induction ps arbitrary: i)
  case Nil
  then show ?case by (simp add: final_calls_def)
next
  case (Cons p ps)
  then show ?case by (simp add: final_calls_Cons)
qed

lemma final_calls_enumerate:
  "map (\<lambda>(l, n). Increment l (the n)) (final_calls n i ps)
     = map (\<lambda>(j, p). Increment (logL p) (n - int j)) (enumerate i ps)"
  by (simp add: final_calls_def enumerate_eq_zip split_def)

lemma increment_logLs: "increment lse l n s = Inr s' \<Longrightarrow> logLs s' = logLs s @ [l]"
  by (auto simp: increment_def Let_def split: if_splits)

lemma increments_logLs:
  "increments lse cs s = Inr s' \<Longrightarrow> logLs s' = logLs s @ map fst cs"
proof (induction cs arbitrary: s)
  case Nil
  then show ?case by simp
next
  case (Cons c cs)
  then show ?case
    by (auto split: sum.splits dest!: increment_logLs)
qed

text \<open>What a returning \<open>loop_exit\<close> has done.\<close>

lemma loop_exit_post:
  assumes "loop_exit lse trap save smp = Inr (smp', ret)"
  shows "\<exists>st. increments lse (final_calls (ns_nlive smp) 0 (live_points smp)) (state smp) = Inr st \<and>
     nested_samples smp' = nested_samples smp @ live_points smp \<and>
     state smp' = st\<lparr> logZ := trap (logLs st) (log_vols st) \<rparr> \<and>
     ret = (trap (logLs st) (log_vols st), nested_samples smp') \<and>
     logZ_history smp' = logZ_history smp @ [logZ st] \<and>
     calls smp' = calls smp @ (if pool (the_proposal smp) then [Close_pool] else [])
        @ map (\<lambda>(j, p). Increment (logL p) (ns_nlive smp - int j)) (enumerate 0 (live_points smp))
        @ [Update_state, Finalise]
        @ (if save then [Write_nested_samples, Write_evidence] else [])
        @ [KS_test_final (insertion_indices smp)]
        @ (if checkpointing smp then [Checkpoint] else [])"
proof -
  let ?smp1 = "if pool (the_proposal smp) then smp\<lparr> calls := calls smp @ [Close_pool] \<rparr>
               else smp"
  from assms obtain smp2 where
    fa: "final_adjustments lse 0 (live_points ?smp1) ?smp1 = Inr smp2"
    by (auto simp: loop_exit_def Let_def split: sum.splits)
  from assms fa obtain smp3 where us: "update_state_forced smp2 = Inr smp3"
    by (auto simp: loop_exit_def Let_def split: sum.splits)
  note r = final_adjustments_run [OF fa]
  have lp1: "live_points ?smp1 = live_points smp" "ns_nlive ?smp1 = ns_nlive smp"
    "state ?smp1 = state smp" "nested_samples ?smp1 = nested_samples smp"
    "insertion_indices ?smp1 = insertion_indices smp" "checkpointing ?smp1 = checkpointing smp"
    "calls ?smp1 = calls smp @ (if pool (the_proposal smp) then [Close_pool] else [])"
    by auto
  have run: "increments lse (final_calls (ns_nlive smp) 0 (live_points smp)) (state smp)
               = Inr (state smp2)"
    using r lp1 by simp
  have s3: "state smp3 = state smp2" "nested_samples smp3 = nested_samples smp2"
    "calls smp3 = calls smp2 @ [Update_state]"
    "logZ_history smp3 = logZ_history smp2 @ [logZ (state smp2)]"
    "insertion_indices smp3 = insertion_indices smp2" "checkpointing smp3 = checkpointing smp2"
    using us
    by (auto simp: update_state_forced_def map_proposal_def Let_def
        split: if_splits proposal_ref.splits)
  have c2: "calls smp2 = calls smp @ (if pool (the_proposal smp) then [Close_pool] else [])
        @ map (\<lambda>(j, p). Increment (logL p) (ns_nlive smp - int j)) (enumerate 0 (live_points smp))"
    using r lp1 by (simp only: final_calls_enumerate append_assoc)
  have h2: "logZ_history smp2 = logZ_history smp"
    using fa
  proof -
    have "final_adjustments lse i ps a = Inr b \<Longrightarrow> logZ_history b = logZ_history a"
      for i ps a b
      by (induction ps arbitrary: i a) (auto split: sum.splits)
    from this [OF fa] show ?thesis by (simp split: if_splits)
  qed
  from assms fa us have out:
    "smp' = (let smp4 = smp3\<lparr> state := fst (finalise trap (state smp3)),
                                 calls := calls smp3 @ [Finalise] \<rparr>;
                   smp5 = smp4\<lparr> ns_info := info (state smp4) \<rparr>;
                   smp6 = (if save
                           then smp5\<lparr> calls := calls smp5
                                          @ [Write_nested_samples, Write_evidence] \<rparr>
                           else smp5);
                   smp7 = smp6\<lparr> calls := calls smp6
                                       @ [KS_test_final (insertion_indices smp6)] \<rparr>
               in (if checkpointing smp7
                           then smp7\<lparr> calls := calls smp7 @ [Checkpoint] \<rparr>
                           else smp7))"
    and ret: "ret = (logZ (state smp'), nested_samples smp')"
    by (auto simp: loop_exit_def Let_def)
  have st': "state smp' = (state smp2)\<lparr> logZ := trap (logLs (state smp2)) (log_vols (state smp2)) \<rparr>"
    unfolding out using s3 by (simp add: Let_def finalise_def)
  have ns': "nested_samples smp' = nested_samples smp @ live_points smp"
    unfolding out using s3 r lp1 by (simp add: Let_def)
  have hist: "logZ_history smp' = logZ_history smp @ [logZ (state smp2)]"
    unfolding out using s3 h2 by (simp add: Let_def)
  have cs: "calls smp' = calls smp2 @ [Update_state, Finalise]
        @ (if save then [Write_nested_samples, Write_evidence] else [])
        @ [KS_test_final (insertion_indices smp)]
        @ (if checkpointing smp then [Checkpoint] else [])"
    unfolding out using s3 r lp1 by (simp add: Let_def)
  have "ret = (trap (logLs (state smp2)) (log_vols (state smp2)), nested_samples smp')"
    using ret st' by simp
  with run st' ns' hist cs c2 show ?thesis
    by (intro exI [of _ "state smp2"]) simp
qed

lemma loop_exit_total:
  assumes inv: "hist_inv (state smp)"
    and len: "int (length (live_points smp)) \<le> ns_nlive smp"
    and ten: "ns_nlive smp div 10 \<noteq> 0"
  shows "\<exists>smp' ret. loop_exit lse trap save smp = Inr (smp', ret)"
proof -
  let ?smp1 = "if pool (the_proposal smp) then smp\<lparr> calls := calls smp @ [Close_pool] \<rparr>
               else smp"
  have "hist_inv (state ?smp1)" using inv by simp
  moreover have "\<forall>j<length (live_points ?smp1). ns_nlive ?smp1 \<noteq> int (0 + j)"
    using len by auto
  ultimately obtain smp2 where
    fa: "final_adjustments lse 0 (live_points ?smp1) ?smp1 = Inr smp2"
    using final_adjustments_total by blast
  have "ns_nlive smp2 = ns_nlive smp"
    using final_adjustments_run [OF fa] by (simp split: if_splits)
  with ten have "\<exists>smp3. update_state_forced smp2 = Inr smp3"
    by (auto simp: update_state_forced_def Let_def)
  with fa show ?thesis
    by (auto simp: loop_exit_def Let_def)
qed

text \<open>
  Modelled from the spec: \<open>log_integrate_log_trap\<close>, missing from the sources; the
  spec describes it as the trapezoidal rule in log-space. Over the stored grid that is the
  log of the sum of \<open>(L\<^sub>i + L\<^sub>i\<^sub>+\<^sub>1) / 2 * (X\<^sub>i - X\<^sub>i\<^sub>+\<^sub>1)\<close>, each factor kept as its logarithm.
\<close>

fun trap_terms :: "fl list \<Rightarrow> fl list \<Rightarrow> fl list" where
  "trap_terms (l0 # l1 # ls) (v0 # v1 # vs) =
     fadd (fsub (logaddexp l0 l1) (Fin (ln 2))) (logsubexp v0 v1)
       # trap_terms (l1 # ls) (v1 # vs)"
| "trap_terms _ _ = []"

definition log_integrate_log_trap :: "fl list \<Rightarrow> fl list \<Rightarrow> fl" where
  "log_integrate_log_trap ls vs = foldl logaddexp NInf (trap_terms ls vs)"

text \<open>C4: at the end of the classical loop, with the integral state in its invariant, at
  most \<open>nlive\<close> live points left and \<open>nlive // 10\<close> not zero, the sampler returns. It has
  called \<open>increment\<close> once per remaining live point, in the order of the store (ascending
  when the store is sorted), the \<open>i\<close>-th with the override \<open>nlive - i\<close>; it has appended
  every remaining live point to the nested samples; then \<open>finalise\<close>, called on the
  state \<open>st\<close> these increments leave, has replaced the stored \<open>logZ\<close> with
  \<open>log_integrate_log_trap (logLs, log_vols)\<close> and has returned that value, which is also
  the evidence the sampler returns; and the final KS test comes after \<open>finalise\<close> in the
  order of calls.\<close>

theorem loop_exit_correct:
  assumes "hist_inv (state smp)"
    and "int (length (live_points smp)) \<le> ns_nlive smp"
    and "ns_nlive smp div 10 \<noteq> 0"
  shows "\<exists>smp' st.
     loop_exit lse trap save smp
       = Inr (smp', (trap (logLs st) (log_vols st), nested_samples smp')) \<and>
     increments lse
       (map (\<lambda>(i, p). (logL p, Some (ns_nlive smp - int i))) (enumerate 0 (live_points smp)))
       (state smp) = Inr st \<and>
     logLs st = logLs (state smp) @ map logL (live_points smp) \<and>
     (sorted_wrt fl_le (map logL (live_points smp))
        \<longrightarrow> sorted_wrt fl_le (drop (length (logLs (state smp))) (logLs st))) \<and>
     nested_samples smp' = nested_samples smp @ live_points smp \<and>
     finalise trap st
       = (st\<lparr> logZ := trap (logLs st) (log_vols st) \<rparr>, trap (logLs st) (log_vols st)) \<and>
     state smp' = fst (finalise trap st) \<and>
     logZ (state smp') = snd (finalise trap st) \<and>
     calls smp' = calls smp @ (if pool (the_proposal smp) then [Close_pool] else [])
        @ map (\<lambda>(i, p). Increment (logL p) (ns_nlive smp - int i)) (enumerate 0 (live_points smp))
        @ [Update_state, Finalise]
        @ (if save then [Write_nested_samples, Write_evidence] else [])
        @ [KS_test_final (insertion_indices smp)]
        @ (if checkpointing smp then [Checkpoint] else [])"
proof -
  obtain smp' ret where ex: "loop_exit lse trap save smp = Inr (smp', ret)"
    using loop_exit_total [OF assms] by blast
  from loop_exit_post [OF ex] obtain st where
    run: "increments lse (final_calls (ns_nlive smp) 0 (live_points smp)) (state smp) = Inr st"
    and post: "nested_samples smp' = nested_samples smp @ live_points smp"
      "state smp' = st\<lparr> logZ := trap (logLs st) (log_vols st) \<rparr>"
      "ret = (trap (logLs st) (log_vols st), nested_samples smp')"
      "calls smp' = calls smp @ (if pool (the_proposal smp) then [Close_pool] else [])
        @ map (\<lambda>(j, p). Increment (logL p) (ns_nlive smp - int j)) (enumerate 0 (live_points smp))
        @ [Update_state, Finalise]
        @ (if save then [Write_nested_samples, Write_evidence] else [])
        @ [KS_test_final (insertion_indices smp)]
        @ (if checkpointing smp then [Checkpoint] else [])"
    by blast
  have fc: "final_calls (ns_nlive smp) 0 (live_points smp)
      = map (\<lambda>(i, p). (logL p, Some (ns_nlive smp - int i))) (enumerate 0 (live_points smp))"
    by (simp add: final_calls_def enumerate_eq_zip)
  have ls: "logLs st = logLs (state smp) @ map logL (live_points smp)"
    using increments_logLs [OF run] by (simp add: final_calls_logLs)
  have "drop (length (logLs (state smp))) (logLs st) = map logL (live_points smp)"
    unfolding ls by simp
  then have srt: "sorted_wrt fl_le (map logL (live_points smp))
        \<longrightarrow> sorted_wrt fl_le (drop (length (logLs (state smp))) (logLs st))"
    by simp
  have fin: "finalise trap st
      = (st\<lparr> logZ := trap (logLs st) (log_vols st) \<rparr>, trap (logLs st) (log_vols st))"
    by (simp add: finalise_def Let_def)
  have fst': "state smp' = fst (finalise trap st)"
    unfolding fin using post(2) by simp
  have snd': "logZ (state smp') = snd (finalise trap st)"
    unfolding fin using post(2) by simp
  from ex run [unfolded fc] ls srt post(1,3,4) fin fst' snd' show ?thesis
    by blast
qed

definition idle_proposal :: proposal_state where
  "idle_proposal = \<lparr> pool = False, populated = True, training_count = 1, ns_acceptance = Fin 1 \<rparr>"

definition sampler_at_exit :: sampler where
  "sampler_at_exit =
     \<lparr> ns_nlive = 10, ns_iteration = 7, live_points = [lp 1, lp 2],
       nested_samples = [lp 0], state = init_state 10, ns_info = [],
       insertion_indices = [0, 1], logLmin = Fin 0, logLmax = Fin 2, condition = Fin 0,
       min_likelihood = [], max_likelihood = [], logZ_history = [], dZ_history = [],
       mean_acceptance_history = [], checkpointing = True, uninformed_sampling = False, acceptance_history = [Fin 1],
       uninformed_acceptance_threshold = Fin (1 / 200), maximum_uninformed = 0,
       mean_block_acceptance = Fin 1, block_acceptance = Fin 1, block_iteration = 1,
       acceptance_threshold = Fin (1 / 20), last_updated = 0, cooldown = 100,
       retrain_acceptance = True, training_frequency = Some 1000, train_on_empty = True,
       force_train = True, resumed = False, reset_weights = 1, memory = 0,
       training_iterations = [0], max_count = 0, proposal = Flow_proposal,
       uninformed_proposal = idle_proposal, flow_proposal = idle_proposal, calls = [] \<rparr>"

theorem loop_exit_correct_witness:
  "\<exists>smp' st.
     loop_exit logsubexp log_integrate_log_trap True sampler_at_exit
       = Inr (smp', (log_integrate_log_trap (logLs st) (log_vols st), nested_samples smp')) \<and>
     increments logsubexp [(Fin 1, Some 10), (Fin 2, Some 9)] (init_state 10) = Inr st \<and>
     logLs st = [NInf, Fin 1, Fin 2] \<and>
     nested_samples smp' = [lp 0, lp 1, lp 2] \<and>
     finalise log_integrate_log_trap st
       = (state smp', log_integrate_log_trap (logLs st) (log_vols st)) \<and>
     logZ (state smp') = log_integrate_log_trap (logLs st) (log_vols st) \<and>
     calls smp' = [Increment (Fin 1) 10, Increment (Fin 2) 9, Update_state, Finalise,
                   Write_nested_samples, Write_evidence, KS_test_final [0, 1], Checkpoint]"
proof -
  have inv: "hist_inv (state sampler_at_exit)"
    by (simp add: sampler_at_exit_def init_state_def hist_inv_reset)
  have len: "int (length (live_points sampler_at_exit)) \<le> ns_nlive sampler_at_exit"
    by (simp add: sampler_at_exit_def)
  have ten: "ns_nlive sampler_at_exit div 10 \<noteq> 0"
    by (simp add: sampler_at_exit_def)
  have en: "enumerate 0 (live_points sampler_at_exit) = [(0, lp 1), (1, lp 2)]"
    by (simp add: sampler_at_exit_def)
  have l0: "logLs (state sampler_at_exit) = [NInf]"
    by (simp add: sampler_at_exit_def init_state_def reset_def)
  have ns: "nested_samples sampler_at_exit @ live_points sampler_at_exit = [lp 0, lp 1, lp 2]"
    "map logL (live_points sampler_at_exit) = [Fin 1, Fin 2]"
    "state sampler_at_exit = init_state 10" "ns_nlive sampler_at_exit = 10"
    by (simp_all add: sampler_at_exit_def lp_def)
  have cs: "calls sampler_at_exit
      @ (if pool (the_proposal sampler_at_exit) then [Close_pool] else [])
      @ map (\<lambda>(i, p). Increment (logL p) (ns_nlive sampler_at_exit - int i)) [(0, lp 1), (1, lp 2)]
      @ [Update_state, Finalise] @ (if True then [Write_nested_samples, Write_evidence] else [])
      @ [KS_test_final (insertion_indices sampler_at_exit)]
      @ (if checkpointing sampler_at_exit then [Checkpoint] else [])
      = [Increment (Fin 1) 10, Increment (Fin 2) 9, Update_state, Finalise,
         Write_nested_samples, Write_evidence, KS_test_final [0, 1], Checkpoint]"
    by (simp add: sampler_at_exit_def lp_def the_proposal_def idle_proposal_def)
  from loop_exit_correct [OF inv len ten, of logsubexp log_integrate_log_trap True]
  obtain smp' st where
    ret: "loop_exit logsubexp log_integrate_log_trap True sampler_at_exit
       = Inr (smp', (log_integrate_log_trap (logLs st) (log_vols st), nested_samples smp'))"
    and run: "increments logsubexp
       (map (\<lambda>(i, p). (logL p, Some (ns_nlive sampler_at_exit - int i)))
          (enumerate 0 (live_points sampler_at_exit)))
       (state sampler_at_exit) = Inr st"
    and ls: "logLs st = logLs (state sampler_at_exit) @ map logL (live_points sampler_at_exit)"
    and nest: "nested_samples smp' = nested_samples sampler_at_exit @ live_points sampler_at_exit"
    and fin: "finalise log_integrate_log_trap st
       = (st\<lparr> logZ := log_integrate_log_trap (logLs st) (log_vols st) \<rparr>,
          log_integrate_log_trap (logLs st) (log_vols st))"
    and st': "state smp' = fst (finalise log_integrate_log_trap st)"
    and z': "logZ (state smp') = snd (finalise log_integrate_log_trap st)"
    and calls': "calls smp' = calls sampler_at_exit
      @ (if pool (the_proposal sampler_at_exit) then [Close_pool] else [])
      @ map (\<lambda>(i, p). Increment (logL p) (ns_nlive sampler_at_exit - int i))
          (enumerate 0 (live_points sampler_at_exit))
      @ [Update_state, Finalise] @ (if True then [Write_nested_samples, Write_evidence] else [])
      @ [KS_test_final (insertion_indices sampler_at_exit)]
      @ (if checkpointing sampler_at_exit then [Checkpoint] else [])"
    by blast
  have run': "increments logsubexp [(Fin 1, Some 10), (Fin 2, Some 9)] (init_state 10) = Inr st"
    using run unfolding en ns by (simp add: lp_def)
  have ls': "logLs st = [NInf, Fin 1, Fin 2]"
    using ls l0 by (simp add: ns(2))
  have nest': "nested_samples smp' = [lp 0, lp 1, lp 2]"
    using nest unfolding ns .
  have fin': "finalise log_integrate_log_trap st
       = (state smp', log_integrate_log_trap (logLs st) (log_vols st))"
    using fin st' by simp
  have z'': "logZ (state smp') = log_integrate_log_trap (logLs st) (log_vols st)"
    using fin z' by simp
  have calls'': "calls smp' = [Increment (Fin 1) 10, Increment (Fin 2) 9, Update_state, Finalise,
                   Write_nested_samples, Write_evidence, KS_test_final [0, 1], Checkpoint]"
    using calls' unfolding en cs .
  from ret run' ls' nest' fin' z'' calls'' show ?thesis
    by blast
qed

section \<open>The retraining policy\<close>

text \<open>Indexing a Python list: a negative index counts from the end.\<close>

definition py_get :: "'a list \<Rightarrow> int \<Rightarrow> error + 'a" where
  "py_get xs i =
     (let j = (if i < 0 then i + int (length xs) else i) in
      if 0 \<le> j \<and> j < int (length xs) then Inr (xs ! nat j) else Inl IndexError)"

text \<open>
  \<open>np.concatenate\<close> on one-dimensional arrays and scalars (a single row of a structured
  array is a zero-dimensional \<open>np.void\<close>): NumPy refuses an empty list of arrays and
  any zero-dimensional operand with a \<open>ValueError\<close>.
\<close>

datatype 'a ndarray = Scalar 'a | Array "'a list"

fun is_scalar :: "'a ndarray \<Rightarrow> bool" where
  "is_scalar (Scalar _) = True"
| "is_scalar (Array _) = False"

fun elements :: "'a ndarray \<Rightarrow> 'a list" where
  "elements (Scalar x) = [x]"
| "elements (Array xs) = xs"

definition np_concatenate :: "'a ndarray list \<Rightarrow> error + 'a list" where
  "np_concatenate arrs =
     (if arrs = [] \<or> list_ex is_scalar arrs then Inl ValueError
      else Inr (concat (map elements arrs)))"

text \<open>
  The first block of \<open>check_state\<close>: leaving uninformed sampling. With an open pool the
  source calls \<open>self.porposal.close_pool ()\<close>, an attribute the sampler does not have.
\<close>

definition switch_proposal :: "sampler \<Rightarrow> error + sampler" where
  "switch_proposal smp =
     (if pool (the_proposal smp) then Inl AttributeError
      else Inr (smp\<lparr> proposal := Flow_proposal,
                      flow_proposal :=
                        (flow_proposal smp)\<lparr> ns_acceptance := mean_block_acceptance smp \<rparr>,
                      uninformed_sampling := False \<rparr>))"

text \<open>The \<open>if / elif\<close> chain that sets \<open>train\<close>.\<close>

definition train_wanted :: "bool \<Rightarrow> bool \<Rightarrow> sampler \<Rightarrow> error + bool" where
  "train_wanted force rejected smp =
     (if force then Inr True
      else if fl_lt (mean_block_acceptance smp) (acceptance_threshold smp) \<and>
              ns_iteration smp - last_updated smp < cooldown smp \<and>
              retrain_acceptance smp then Inr True
      else if rejected \<and>
              fl_lt (mean_block_acceptance smp) (acceptance_threshold smp) \<and>
              retrain_acceptance smp then Inr True
      else (case training_frequency smp of
              None \<Rightarrow> Inr (ns_iteration smp - last_updated smp = 0)
            | Some f \<Rightarrow>
                if f = 0 then Inl ZeroDivisionError
                else Inr ((ns_iteration smp - last_updated smp) mod f = 0)))"

text \<open>
  The training set: a copy of the live points and, with \<open>memory\<close> set and enough nested
  samples, the concatenation with \<open>self.nested_samples[-self.memory]\<close>, which is one
  nested sample.
\<close>

definition training_data :: "sampler \<Rightarrow> error + live_point list" where
  "training_data smp =
     (if memory smp \<noteq> 0 \<and> nested_samples smp \<noteq> [] \<and>
         memory smp \<le> int (length (nested_samples smp))
      then (case py_get (nested_samples smp) (- memory smp) of
              Inl e \<Rightarrow> Inl e
            | Inr x \<Rightarrow> np_concatenate [Array (live_points smp), Scalar x])
      else Inr (live_points smp))"

text \<open>
  The training step. What \<open>reset_model_weights\<close> and \<open>train\<close> do to the proposal is
  the collaborator's business: the parameters \<open>reset_fn\<close> and \<open>train_fn\<close>.
\<close>

definition train_proposal ::
  "(proposal_state \<Rightarrow> proposal_state) \<Rightarrow> (live_point list \<Rightarrow> proposal_state \<Rightarrow> proposal_state)
     \<Rightarrow> sampler \<Rightarrow> error + sampler" where
  "train_proposal reset_fn train_fn smp =
     (let smp1 = (if reset_weights smp \<noteq> 0 \<and>
                     real (training_count (the_proposal smp)) / reset_weights smp \<in> \<int>
                  then (map_proposal reset_fn smp)\<lparr> calls := calls smp @ [Reset_model_weights] \<rparr>
                  else smp) in
      case training_data smp1 of
        Inl e \<Rightarrow> Inl e
      | Inr d \<Rightarrow>
          let smp2 = (map_proposal (train_fn d) smp1)
                       \<lparr> calls := calls smp1 @ [Train d],
                         training_iterations := training_iterations smp1 @ [ns_iteration smp1],
                         last_updated := ns_iteration smp1,
                         block_iteration := 0,
                         block_acceptance := Fin 0 \<rparr>
          in Inr (if checkpointing smp2 then smp2\<lparr> calls := calls smp2 @ [Checkpoint] \<rparr>
                  else smp2))"

text \<open>\<open>NestedSampler.check_state (force, rejected)\<close>.\<close>

definition check_state ::
  "(proposal_state \<Rightarrow> proposal_state) \<Rightarrow> (live_point list \<Rightarrow> proposal_state \<Rightarrow> proposal_state)
     \<Rightarrow> bool \<Rightarrow> bool \<Rightarrow> sampler \<Rightarrow> error + sampler" where
  "check_state reset_fn train_fn force rejected smp0 =
     (let switch = (fl_lt (mean_acceptance smp0) (uninformed_acceptance_threshold smp0) \<or>
                    maximum_uninformed smp0 \<le> ns_iteration smp0) in
      if uninformed_sampling smp0 \<and> \<not> switch then Inr smp0
      else
        case (if uninformed_sampling smp0 then switch_proposal smp0 else Inr smp0) of
          Inl e \<Rightarrow> Inl e
        | Inr smp \<Rightarrow>
            (case train_wanted force rejected smp of
               Inl e \<Rightarrow> Inl e
             | Inr train0 \<Rightarrow>
                 let empty = (\<not> populated (the_proposal smp) \<and> train_on_empty smp);
                     train = (train0 \<or> empty);
                     force' = (force \<or> (empty \<and> force_train smp))
                 in
                 if \<not> train then Inr smp
                 else if ns_iteration smp - last_updated smp < cooldown smp \<and> \<not> force'
                   then Inr smp
                 else if resumed smp then Inr (smp\<lparr> resumed := False \<rparr>)
                 else train_proposal reset_fn train_fn smp))"

text \<open>With \<open>memory\<close> set and enough nested samples no training set is built.\<close>

lemma training_data_memory:
  assumes "0 < memory smp" and "memory smp \<le> int (length (nested_samples smp))"
  shows "training_data smp = Inl ValueError"
proof -
  from assms have "nested_samples smp \<noteq> []" by auto
  moreover from assms have
    "py_get (nested_samples smp) (- memory smp)
       = Inr (nested_samples smp ! nat (int (length (nested_samples smp)) - memory smp))"
    by (simp add: py_get_def Let_def)
  ultimately show ?thesis
    using assms by (simp add: training_data_def np_concatenate_def)
qed

lemma training_data_no_memory:
  "memory smp = 0 \<or> int (length (nested_samples smp)) < memory smp
     \<Longrightarrow> training_data smp = Inr (live_points smp)"
  by (auto simp: training_data_def)

text \<open>C8: a forced training step at iteration 7 with two live points, three nested
  samples and \<open>memory = 2\<close>. The claim expects the two live points followed by the last two
  nested samples as training set; the source takes the single sample
  \<open>nested_samples[-2]\<close>, \<open>np.concatenate\<close> refuses it and \<open>check_state\<close> raises
  \<open>ValueError\<close> before the proposal is trained. With \<open>memory\<close> unset the same step
  trains on the live points alone.\<close>

theorem check_state_memory:
  "check_state reset_fn train_fn True False
     (sampler_at_exit\<lparr> memory := 2, nested_samples := [lp (- 3), lp (- 2), lp (- 1)],
                       reset_weights := 0 \<rparr>) = Inl ValueError \<and>
   map_sum id calls
     (check_state reset_fn train_fn True False
        (sampler_at_exit\<lparr> memory := 0, nested_samples := [lp (- 3), lp (- 2), lp (- 1)],
                          reset_weights := 0 \<rparr>))
     = Inr [Train [lp 1, lp 2], Checkpoint]"
  by (simp add: check_state_def train_wanted_def train_proposal_def training_data_def
      py_get_def np_concatenate_def sampler_at_exit_def the_proposal_def map_proposal_def
      idle_proposal_def Let_def)

section \<open>Populating the live points\<close>

text \<open>
  The model and the proposal are collaborators, and what they return is an input of the
  sampler. One \<open>draw\<close> is what a pass of the rejection loop of \<open>yield_sample\<close> gets
  from them: the point \<open>proposal.draw\<close> returns, the value of \<open>model.log_prior\<close> on
  it, the value \<open>model.evaluate_log_likelihood\<close> would give, and
  \<open>proposal.populated\<close> after the draw.
\<close>

record draw =
  drawn :: live_point
  prior :: fl
  likelihood :: fl
  still_populated :: bool

text \<open>Truth of a float in a Python condition: only zero is false (a NaN is true).\<close>

definition truthy :: "fl \<Rightarrow> bool" where
  "truthy a = (\<not> fl_eq a (Fin 0))"


















section \<open>The importance proposal\<close>

text \<open>
  Class \<open>ImportanceFlowProposal\<close> of \<open>nessai/proposal/importance.py\<close>. A sample of
  the importance sampler is a live point with the columns \<open>logQ\<close> and \<open>logW\<close> (the
  integer column \<open>it\<close> and \<open>logG\<close> play no part in the methods modelled here and are
  left out).
\<close>

record sample = live_point +
  logQ :: fl
  logW :: fl

text \<open>
  Assigning a column of a structured array, \<open>x[field] = values\<close>: NumPy raises
  \<open>ValueError\<close> for a field the dtype does not have, and for values that are neither
  one per row nor a single value. The dtype here has the model's parameters \<open>names\<close> and
  the columns of the record, \<open>logQ\<close> and \<open>logW\<close> among them: the proposal checks at
  its initialisation (\<open>_check_fields\<close>) that both are fields of a sample, and reads
  and assigns them. \<open>get_dtype\<close> of \<open>nessai/livepoint.py\<close>, as the sources at hand have
  it, lists only \<open>names\<close>, \<open>logP\<close> and \<open>logL\<close>: an array of that dtype has no
  \<open>logQ\<close>, and the first assignment of \<open>logQ\<close> to it raises \<open>ValueError\<close>. The
  arrays that \<open>update_samples\<close> works on are handed in by its caller.
\<close>

definition put :: "string \<Rightarrow> fl \<Rightarrow> sample \<Rightarrow> sample" where
  "put field v x =
     (if field = ''logP'' then x\<lparr> logP := v \<rparr>
      else if field = ''logL'' then x\<lparr> logL := v \<rparr>
      else if field = ''logQ'' then x\<lparr> logQ := v \<rparr>
      else if field = ''logW'' then x\<lparr> logW := v \<rparr>
      else x\<lparr> coords := AList.update field v (coords x) \<rparr>)"

definition set_column ::
  "string list \<Rightarrow> string \<Rightarrow> fl list \<Rightarrow> sample list \<Rightarrow> error + sample list" where
  "set_column names field vals xs =
     (if field \<notin> set (names @ [''logP'', ''logL'', ''logQ'', ''logW'']) then Inl ValueError
      else if length vals = length xs then Inr (map2 (put field) vals xs)
      else if length vals = 1 then Inr (map (put field (hd vals)) xs)
      else Inl ValueError)"

text \<open>Adding two one-dimensional arrays: equal lengths, or one of them of length one.\<close>

definition vadd :: "fl list \<Rightarrow> fl list \<Rightarrow> error + fl list" where
  "vadd a b =
     (if length a = length b then Inr (map2 fadd a b)
      else if length b = 1 then Inr (map (\<lambda>u. fadd u (hd b)) a)
      else if length a = 1 then Inr (map (fadd (hd a)) b)
      else Inl ValueError)"


text \<open>
  A two-dimensional array: its number of columns and its rows, each with that many
  entries.
\<close>

record matrix =
  ncols :: nat
  rows :: "fl list list"

text \<open>Adding a one-dimensional array to every row (\<open>(N, m) + (k,)\<close>).\<close>

definition add_to_rows :: "matrix \<Rightarrow> fl list \<Rightarrow> error + matrix" where
  "add_to_rows a v =
     (if ncols a = length v then Inr (a\<lparr> rows := map (\<lambda>r. map2 fadd r v) (rows a) \<rparr>)
      else if length v = 1
        then Inr (a\<lparr> rows := map (map (\<lambda>u. fadd u (hd v))) (rows a) \<rparr>)
      else if ncols a = 1
        then Inr \<lparr> ncols = length v, rows = map (\<lambda>r. map (fadd (hd r)) v) (rows a) \<rparr>
      else Inl ValueError)"

text \<open>Adding a column vector to every column (\<open>log_q += log_j[:, np.newaxis]\<close>).\<close>

definition add_to_columns :: "matrix \<Rightarrow> fl list \<Rightarrow> error + matrix" where
  "add_to_columns a c =
     (if length c = length (rows a)
        then Inr (a\<lparr> rows := map2 (\<lambda>r u. map (\<lambda>e. fadd e u) r) (rows a) c \<rparr>)
      else if length c = 1
        then Inr (a\<lparr> rows := map (map (\<lambda>e. fadd e (hd c))) (rows a) \<rparr>)
      else Inl ValueError)"

text \<open>Appending a column (\<open>np.concatenate ([a, c[:, np.newaxis]], axis=1)\<close>).\<close>

definition append_column :: "matrix \<Rightarrow> fl list \<Rightarrow> error + matrix" where
  "append_column a c =
     (if length c = length (rows a)
        then Inr \<lparr> ncols = ncols a + 1, rows = map2 (\<lambda>r u. r @ [u]) (rows a) c \<rparr>
      else Inl ValueError)"

text \<open>
  \<open>scipy.special.logsumexp\<close> along a row: the maximum (a NaN if there is one) is taken
  out when it is finite; a row without entries has no maximum and raises.
\<close>

definition amax :: "fl list \<Rightarrow> fl" where
  "amax r = (if list_ex isnan r then NaN
             else foldl (\<lambda>a b. if fl_lt a b then b else a) (hd r) (tl r))"

definition logsumexp_row :: "fl list \<Rightarrow> fl" where
  "logsumexp_row r =
     (let m = amax r;
          a_max = (if isfinite m then m else Fin 0);
          s = foldl fadd (Fin 0) (map (\<lambda>a. fexp (fsub a a_max)) r)
      in fadd (flog s) a_max)"

definition logsumexp :: "matrix \<Rightarrow> error + fl list" where
  "logsumexp a = (if ncols a = 0 then Inl ValueError else Inr (map logsumexp_row (rows a)))"

text \<open>
  The dictionaries \<open>n_draws\<close> and \<open>n_requested\<close>: keys \<open>'initial'\<close> and the level
  numbers, in the order of insertion.
\<close>

datatype level_key = Initial | Level int


record importance_proposal =
  names :: "string list"
  level_count :: int
  draw_count :: nat
  initial_draws :: int
  reweight_draws :: bool
  combined_proposal :: bool
  n_draws :: "(level_key \<times> int) list"
  n_requested :: "(level_key \<times> int) list"

definition initial_log_q :: "importance_proposal \<Rightarrow> fl" where
  "initial_log_q pr = flog (Fin (real_of_int (initial_draws pr)))"

definition unnormalised_weights :: "importance_proposal \<Rightarrow> (level_key \<times> int) list" where
  "unnormalised_weights pr = (if reweight_draws pr then n_requested pr else n_draws pr)"

definition poolsize :: "importance_proposal \<Rightarrow> int list" where
  "poolsize pr = tl (map snd (unnormalised_weights pr))"

definition log_int :: "int \<Rightarrow> fl" where
  "log_int n = flog (Fin (real_of_int n))"

text \<open>
  The flow, the reparametrisation and the model are collaborators: the number of trained
  flows, the log-densities they give to rows of \<open>x'\<close>, the map from samples to \<open>x'\<close>
  with its log-Jacobian, the model's log-prior and its log-likelihood (as the proposal
  and as the sampler call it).
\<close>

record collaborators =
  n_models :: nat
  log_prob_all :: "fl list list \<Rightarrow> bool \<Rightarrow> matrix"
  log_prob_ith :: "fl list list \<Rightarrow> int \<Rightarrow> fl list"
  rescale :: "sample list \<Rightarrow> fl list list \<times> fl list"
  log_prior :: "sample list \<Rightarrow> fl list"
  batch_evaluate_log_likelihood :: "sample list \<Rightarrow> fl list"
  evaluate_log_likelihood :: "sample list \<Rightarrow> fl list"

text \<open>
  \<open>_compute_log_Q_combined\<close> up to its first NaN test: the log-density of the flows'
  part of the meta-proposal, one value per row.
\<close>

definition flows_log_Q ::
  "collaborators \<Rightarrow> importance_proposal \<Rightarrow> fl list list \<Rightarrow> fl list option \<Rightarrow> int option
     \<Rightarrow> fl list option \<Rightarrow> error + fl list" where
  "flows_log_Q env pr x_prime log_q_j n log_j =
     (if log_q_j \<noteq> None \<and> n_models env = 1
      then (case (n, log_j) of
              (Some n', Some lj) \<Rightarrow> vadd (map (\<lambda>q. fadd q (log_int n')) (the log_q_j)) lj
            | _ \<Rightarrow> Inl TypeError)
      else
        let log_q_all = log_prob_all env x_prime (log_q_j \<noteq> None);
            m = ncols log_q_all
        in
        if length (rows log_q_all) \<noteq> length x_prime then Inl AssertionError
        else
          case (case log_q_j of
                  Some lq \<Rightarrow>
                    (case add_to_rows log_q_all (map log_int (take m (poolsize pr))) of
                       Inl e \<Rightarrow> Inl e
                     | Inr a \<Rightarrow>
                         (case n of
                            None \<Rightarrow> Inl TypeError
                          | Some n' \<Rightarrow>
                              (case append_column a (map (\<lambda>q. fadd q (log_int n')) lq) of
                                 Inl e \<Rightarrow> Inl e
                               | Inr log_q \<Rightarrow>
                                   if int m = int (n_models env) - 1 then Inr log_q
                                   else Inl AssertionError)))
                | None \<Rightarrow>
                    (case add_to_rows log_q_all (map log_int (poolsize pr)) of
                       Inl e \<Rightarrow> Inl e
                     | Inr log_q \<Rightarrow>
                         if m = n_models env then Inr log_q else Inl AssertionError)) of
            Inl e \<Rightarrow> Inl e
          | Inr log_q \<Rightarrow>
              (case log_j of
                 None \<Rightarrow> Inl TypeError
               | Some lj \<Rightarrow>
                   (case add_to_columns log_q lj of
                      Inl e \<Rightarrow> Inl e
                    | Inr log_q' \<Rightarrow> logsumexp log_q')))"

text \<open>\<open>_compute_log_Q_combined\<close>: the two NaN tests around the prior's term.\<close>

definition compute_log_Q_combined ::
  "collaborators \<Rightarrow> importance_proposal \<Rightarrow> fl list list \<Rightarrow> fl list option \<Rightarrow> int option
     \<Rightarrow> fl list option \<Rightarrow> error + fl list" where
  "compute_log_Q_combined env pr x_prime log_q_j n log_j =
     (case flows_log_Q env pr x_prime log_q_j n log_j of
        Inl e \<Rightarrow> Inl e
      | Inr log_Q \<Rightarrow>
          if list_ex isnan log_Q then Inl ValueError
          else
            let log_Q' = map (logaddexp (initial_log_q pr)) log_Q in
            if list_ex isnan log_Q' then Inl ValueError else Inr log_Q')"

text \<open>\<open>_compute_log_Q_independent\<close>: \<open>log_q + log_j + np.log (n)\<close>.\<close>

definition compute_log_Q_independent ::
  "fl list option \<Rightarrow> int option \<Rightarrow> fl list option \<Rightarrow> error + fl list" where
  "compute_log_Q_independent log_q n log_j =
     (case (log_q, log_j, n) of
        (Some lq, Some lj, Some n') \<Rightarrow>
          (case vadd lq lj of
             Inl e \<Rightarrow> Inl e
           | Inr s \<Rightarrow> Inr (map (\<lambda>u. fadd u (log_int n')) s))
      | _ \<Rightarrow> Inl TypeError)"

definition compute_log_Q ::
  "collaborators \<Rightarrow> importance_proposal \<Rightarrow> fl list list \<Rightarrow> fl list option \<Rightarrow> int option
     \<Rightarrow> fl list option \<Rightarrow> error + fl list" where
  "compute_log_Q env pr x log_q n log_j =
     (if combined_proposal pr then compute_log_Q_combined env pr x log_q n log_j
      else compute_log_Q_independent log_q n log_j)"


text \<open>
  One row of a batch drawn from the flow: the sample \<open>inverse_rescale\<close> gives for the
  drawn \<open>x'\<close>, with its log-density and log-Jacobian, what \<open>rescale\<close> gives back for
  the sample, and whether the model has it in bounds.
\<close>

record candidate =
  c_x :: sample
  c_x_prime :: "fl list"
  c_log_q :: fl
  c_log_j_inv :: fl
  c_x_check :: "fl list"
  c_log_j :: fl
  c_in_bounds :: bool

text \<open>\<open>isfinite_struct\<close>: every field of the row is finite.\<close>

definition isfinite_struct :: "sample \<Rightarrow> bool" where
  "isfinite_struct s \<longleftrightarrow>
     list_all (\<lambda>c. isfinite (snd c)) (coords s) \<and> isfinite (logP s) \<and> isfinite (logL s) \<and>
     isfinite (logQ s) \<and> isfinite (logW s)"

definition acc :: "candidate \<Rightarrow> bool" where
  "acc c \<longleftrightarrow>
     c_in_bounds c \<and> isfinite_struct (c_x c) \<and> list_all isfinite (c_x_check c) \<and>
     list_all isfinite (c_x_prime c) \<and> isfinite (c_log_j c) \<and> isfinite (c_log_j_inv c) \<and>
     isfinite (c_log_q c)"

text \<open>Python's \<open>int\<close> of a float: truncation towards zero.\<close>

definition py_int :: "real \<Rightarrow> int" where
  "py_int r = (if 0 \<le> r then \<lfloor>r\<rfloor> else \<lceil>r\<rceil>)"

text \<open>
  The three column assignments of a pass: \<open>logQ\<close>, \<open>logP\<close> and \<open>logW = - logQ\<close>.
\<close>

definition weigh ::
  "collaborators \<Rightarrow> importance_proposal \<Rightarrow> fl list \<Rightarrow> sample list \<Rightarrow> error + sample list" where
  "weigh env pr q x0 =
     (case set_column (names pr) ''logQ'' q x0 of
        Inl e \<Rightarrow> Inl e
      | Inr x1 \<Rightarrow>
          (case set_column (names pr) ''logP'' (log_prior env x1) x1 of
             Inl e \<Rightarrow> Inl e
           | Inr x2 \<Rightarrow> set_column (names pr) ''logW'' (map (fneg \<circ> logQ) x2) x2))"

text \<open>
  The \<open>while\<close> loop of \<open>draw\<close>. Every pass takes a batch of the flow from the list;
  \<open>None\<close> means that the list ran out while the loop was still running.
\<close>

fun draw_loop ::
  "collaborators \<Rightarrow> importance_proposal \<Rightarrow> int \<Rightarrow> int \<Rightarrow> fl option \<Rightarrow> candidate list list
     \<Rightarrow> sample list \<Rightarrow> int \<Rightarrow> (error + sample list) option" where
  "draw_loop env pr n n_draw logL_min [] samples n_accepted =
     (if n_accepted < n \<and> 0 < n_draw then None else Some (Inr samples))"
| "draw_loop env pr n n_draw logL_min (batch # batches) samples n_accepted =
     (if \<not> (n_accepted < n \<and> 0 < n_draw) then Some (Inr samples)
      else
        let passed = filter acc batch in
        if passed = [] then draw_loop env pr n n_draw logL_min batches samples n_accepted
        else
          (case compute_log_Q env pr (map c_x_prime passed) (Some (map c_log_q passed))
                  (Some n) (Some (map c_log_j passed)) of
             Inl e \<Rightarrow> Some (Inl e)
           | Inr q \<Rightarrow>
              (case weigh env pr q (map c_x passed) of
                 Inl e \<Rightarrow> Some (Inl e)
               | Inr x \<Rightarrow>
                   let accepted = filter (\<lambda>s. isfinite (logP s) \<and> isfinite (logW s)) x in
                   if accepted = []
                   then draw_loop env pr n n_draw logL_min batches samples n_accepted
                   else
                     (case (case logL_min of
                              None \<Rightarrow> Inr accepted
                            | Some l \<Rightarrow>
                                set_column (names pr) ''logl''
                                  (batch_evaluate_log_likelihood env accepted) accepted) of
                        Inl e \<Rightarrow> Some (Inl e)
                      | Inr x' \<Rightarrow>
                          draw_loop env pr n n_draw logL_min batches (samples @ x')
                            (case logL_min of
                               None \<Rightarrow> n_accepted + int (length x')
                             | Some l \<Rightarrow>
                                 n_accepted
                                   + int (length (filter (\<lambda>s. fl_ge (logL s) l) x')))))))"

text \<open>
  The cut after the loop with a likelihood threshold: the samples up to the one that
  brings the count of those at or above the threshold to \<open>n\<close>. \<open>np.argmax\<close> raises on
  an empty array and returns 0 when the count is never reached; the \<open>assert\<close> follows.
\<close>

fun cumsum :: "int \<Rightarrow> bool list \<Rightarrow> int list" where
  "cumsum c [] = []"
| "cumsum c (b # bs) = (c + (if b then 1 else 0)) # cumsum (c + (if b then 1 else 0)) bs"

definition argmax :: "bool list \<Rightarrow> error + nat" where
  "argmax bs =
     (if bs = [] then Inl ValueError
      else Inr (if list_ex id bs then length (takeWhile Not bs) else 0))"

definition cut_at_threshold :: "int \<Rightarrow> fl \<Rightarrow> sample list \<Rightarrow> error + sample list" where
  "cut_at_threshold n l samples =
     (case argmax (map (\<lambda>c. n \<le> c) (cumsum 0 (map (\<lambda>s. fl_ge (logL s) l) samples))) of
        Inl e \<Rightarrow> Inl e
      | Inr idx \<Rightarrow>
          let cut = slice_get samples 0 (int idx + 1) in
          if int (length cut) < n then Inl AssertionError else Inr cut)"

text \<open>
  \<open>d[key] += n\<close> on one of the dictionaries: a missing key raises \<open>KeyError\<close>.
\<close>

definition dict_add ::
  "(level_key \<times> int) list \<Rightarrow> level_key \<Rightarrow> int \<Rightarrow> error + (level_key \<times> int) list" where
  "dict_add d k n =
     (case map_of d k of None \<Rightarrow> Inl KeyError | Some v \<Rightarrow> Inr (AList.update k (v + n) d))"

text \<open>
  The end of \<open>draw\<close> with a likelihood threshold: \<open>logQ\<close> is computed again from
  all the flows, and \<open>logW\<close> follows.
\<close>

definition reweigh ::
  "collaborators \<Rightarrow> importance_proposal \<Rightarrow> sample list \<Rightarrow> error + sample list" where
  "reweigh env pr samples =
     (case compute_log_Q env pr (fst (rescale env samples)) None None
             (Some (snd (rescale env samples))) of
        Inl e \<Rightarrow> Inl e
      | Inr q \<Rightarrow>
          (case set_column (names pr) ''logQ'' q samples of
             Inl e \<Rightarrow> Inl e
           | Inr s1 \<Rightarrow> set_column (names pr) ''logW'' (map (fneg \<circ> logQ) s1) s1))"

text \<open>\<open>draw\<close> after its loop: the cut, the count of the draws, the new weights.\<close>

definition after_loop ::
  "collaborators \<Rightarrow> importance_proposal \<Rightarrow> int \<Rightarrow> fl option \<Rightarrow> sample list
     \<Rightarrow> error + sample list \<times> importance_proposal" where
  "after_loop env pr n logL_min collected =
     (case (case logL_min of
              None \<Rightarrow> Inr (slice_get collected 0 n)
            | Some l \<Rightarrow> cut_at_threshold n l collected) of
        Inl e \<Rightarrow> Inl e
      | Inr samples \<Rightarrow>
          (case dict_add (n_draws pr) (Level (level_count pr)) (int (length samples)) of
             Inl e \<Rightarrow> Inl e
           | Inr counts \<Rightarrow>
               (case (case logL_min of
                        None \<Rightarrow> Inr samples
                      | Some l \<Rightarrow> reweigh env (pr\<lparr> n_draws := counts \<rparr>) samples) of
                  Inl e \<Rightarrow> Inl e
                | Inr samples' \<Rightarrow>
                    Inr (samples', pr\<lparr> n_draws := counts, draw_count := draw_count pr + 1 \<rparr>))))"

text \<open>
  \<open>draw (n, logL_min)\<close>: the samples and the proposal with its counters. The entropy
  of the weights, which is only logged and stored, is left out. The flow is asked for
  \<open>n_draw\<close> rows per batch.
\<close>

definition n_draw_of :: "int \<Rightarrow> fl option \<Rightarrow> int" where
  "n_draw_of n logL_min =
     (if (case logL_min of None \<Rightarrow> False | Some l \<Rightarrow> truthy l)
      then py_int (6 / 5 * real_of_int n)
      else py_int (101 / 100 * real_of_int n))"

definition draw ::
  "collaborators \<Rightarrow> importance_proposal \<Rightarrow> int \<Rightarrow> fl option \<Rightarrow> candidate list list
     \<Rightarrow> (error + sample list \<times> importance_proposal) option" where
  "draw env pr n logL_min batches =
     (case dict_add (n_requested pr) (Level (level_count pr)) n of
        Inl e \<Rightarrow> Some (Inl e)
      | Inr requested \<Rightarrow>
          (case draw_loop env (pr\<lparr> n_requested := requested \<rparr>) n (n_draw_of n logL_min)
                  logL_min batches [] 0 of
             None \<Rightarrow> None
           | Some (Inl e) \<Rightarrow> Some (Inl e)
           | Some (Inr collected) \<Rightarrow>
               Some (after_loop env (pr\<lparr> n_requested := requested \<rparr>) n logL_min collected)))"

text \<open>
  \<open>ImportanceNestedSampler.draw_n_samples\<close>: with \<open>leaky\<close> the draw has no threshold
  and the sampler evaluates the likelihood of the new points afterwards.
\<close>

definition draw_n_samples ::
  "collaborators \<Rightarrow> bool \<Rightarrow> fl \<Rightarrow> importance_proposal \<Rightarrow> int \<Rightarrow> candidate list list
     \<Rightarrow> (error + sample list \<times> importance_proposal) option" where
  "draw_n_samples env leaky min_logL pr n batches =
     (case draw env pr n (if leaky then None else Some min_logL) batches of
        None \<Rightarrow> None
      | Some (Inl e) \<Rightarrow> Some (Inl e)
      | Some (Inr (new_points, pr')) \<Rightarrow>
          if leaky
          then (case set_column (names pr') ''logL'' (evaluate_log_likelihood env new_points)
                       new_points of
                  Inl e \<Rightarrow> Some (Inl e)
                | Inr new_points' \<Rightarrow> Some (Inr (new_points', pr')))
          else Some (Inr (new_points, pr')))"

section \<open>Weights of the meta-proposal\<close>

lemma logaddexp_Fin:
  "\<exists>c. logaddexp (Fin a) (Fin b) = Fin c \<and> a \<le> c \<and> b \<le> c"
proof -
  have pos: "0 < 1 + exp t" for t :: real
    by (simp add: add_pos_pos)
  have nonneg: "0 \<le> ln (1 + exp t)" for t :: real
    by (simp add: pos)
  consider "a = b" | "b < a" | "a < b" by linarith
  then show ?thesis
  proof cases
    case 1
    then show ?thesis by (simp add: logaddexp_def)
  next
    case 2
    have "logaddexp (Fin a) (Fin b) = Fin (a + ln (1 + exp (- (a - b))))"
      using 2 pos [of "b - a"]
      by (simp add: logaddexp_def fsub_def fl_gt_def flog1p_def Let_def)
    moreover have "a \<le> a + ln (1 + exp (- (a - b)))" "b \<le> a + ln (1 + exp (- (a - b)))"
      using 2 nonneg [of "- (a - b)"] by linarith+
    ultimately show ?thesis by blast
  next
    case 3
    have "logaddexp (Fin a) (Fin b) = Fin (b + ln (1 + exp (a - b)))"
      using 3 pos [of "a - b"]
      by (simp add: logaddexp_def fsub_def fl_gt_def fl_le_def flog1p_def Let_def)
    moreover have "a \<le> b + ln (1 + exp (a - b))" "b \<le> b + ln (1 + exp (a - b))"
      using 3 nonneg [of "a - b"] by linarith+
    ultimately show ?thesis by blast
  qed
qed

lemma logaddexp_ge:
  assumes "\<not> isnan (logaddexp x y)"
  shows "fl_ge (logaddexp x y) x" and "fl_ge (logaddexp x y) y"
proof -
  have "fl_ge (logaddexp x y) x \<and> fl_ge (logaddexp x y) y"
  proof (cases "isfinite x \<and> isfinite y")
    case True
    then obtain a b where ab: "x = Fin a" "y = Fin b"
      by (cases x; cases y) auto
    from logaddexp_Fin [of a b] obtain c where
      "logaddexp (Fin a) (Fin b) = Fin c" "a \<le> c" "b \<le> c" by blast
    with ab show ?thesis
      by (auto simp: fl_ge_def fl_le_def)
  next
    case False
    with assms show ?thesis
      by (cases x; cases y)
         (auto simp: logaddexp_def fsub_def fl_gt_def fl_ge_def fl_le_def flog1p_def Let_def)
  qed
  then show "fl_ge (logaddexp x y) x" and "fl_ge (logaddexp x y) y" by auto
qed




lemma compute_log_Q_combined_bound:
  assumes "compute_log_Q_combined env pr x lq n lj = Inr v"
  shows "\<forall>q\<in>set v. \<not> isnan q \<and> fl_ge q (initial_log_q pr)"
proof -
  from assms obtain log_Q where
    v: "v = map (logaddexp (initial_log_q pr)) log_Q" and nn: "\<not> list_ex isnan v"
    by (auto simp: compute_log_Q_combined_def Let_def split: sum.splits if_splits)
  show ?thesis
  proof
    fix q assume q: "q \<in> set v"
    with nn have n: "\<not> isnan q" by (auto simp: list_ex_iff)
    from q v obtain t where "q = logaddexp (initial_log_q pr) t" by auto
    with n logaddexp_ge(1) [of "initial_log_q pr" t] show "\<not> isnan q \<and> fl_ge q (initial_log_q pr)"
      by simp
  qed
qed




section \<open>A flat flow on one parameter\<close>

text \<open>
  Collaborators for concrete runs: one trained flow with density one everywhere, the
  identity as reparametrisation, a flat prior and a likelihood of \<open>e\<close>.
\<close>

definition flat :: collaborators where
  "flat =
     \<lparr> n_models = 1,
       log_prob_all = (\<lambda>x exclude_last.
          \<lparr> ncols = (if exclude_last then 0 else 1),
            rows = map (\<lambda>r. if exclude_last then [] else [Fin 0]) x \<rparr>),
       log_prob_ith = (\<lambda>x i. map (\<lambda>r. Fin 0) x),
       rescale = (\<lambda>s. (map (\<lambda>r. map snd (coords r)) s, map (\<lambda>r. Fin 0) s)),
       log_prior = (\<lambda>s. map (\<lambda>r. Fin 0) s),
       batch_evaluate_log_likelihood = (\<lambda>s. map (\<lambda>r. Fin 1) s),
       evaluate_log_likelihood = (\<lambda>s. map (\<lambda>r. Fin 1) s) \<rparr>"

definition first_level :: importance_proposal where
  "first_level =
     \<lparr> names = [''x''], level_count = 0, draw_count = 0, initial_draws = 1,
       reweight_draws = False, combined_proposal = True,
       n_draws = [(Initial, 1), (Level 0, 0)],
       n_requested = [(Initial, 1), (Level 0, 0)] \<rparr>"

definition fresh :: sample where
  "fresh = \<lparr> coords = [(''x'', Fin (1 / 2))], logP = Fin 0, logL = Fin 0,
             logQ = Fin 0, logW = Fin 0 \<rparr>"

definition one_row :: "candidate list list" where
  "one_row =
     [[\<lparr> c_x = fresh, c_x_prime = [Fin (1 / 2)], c_log_q = Fin 0, c_log_j_inv = Fin 0,
         c_x_check = [Fin (1 / 2)], c_log_j = Fin 0, c_in_bounds = True \<rparr>]]"

lemmas draw_defs =
  draw_n_samples_def draw_def n_draw_of_def after_loop_def reweigh_def weigh_def
  compute_log_Q_def compute_log_Q_combined_def compute_log_Q_independent_def flows_log_Q_def
  initial_log_q_def log_int_def vadd_def set_column_def put_def dict_add_def acc_def
  isfinite_struct_def py_int_def truthy_def slice_get_def clip_bound_def logaddexp_def
  flat_def first_level_def fresh_def one_row_def Let_def

section \<open>The draw step of a level\<close>

text \<open>With a likelihood threshold the loop of \<open>draw\<close> keeps nothing: a pass that
  accepts rows assigns the column \<open>logl\<close>, which the dtype does not have unless the
  model names a parameter so.\<close>

lemma draw_loop_threshold:
  assumes "''logl'' \<notin> set (names pr)"
  shows "draw_loop env pr n nd (Some l) batches samples k = Some (Inr out) \<Longrightarrow> out = samples"
proof (induction batches arbitrary: k)
  case Nil
  then show ?case by (auto split: if_splits)
next
  case (Cons batch batches)
  from assms have no: "set_column (names pr) ''logl'' v xs = Inl ValueError" for v xs
    by (simp add: set_column_def)
  let ?passed = "filter acc batch"
  show ?case
  proof (cases "k < n \<and> 0 < nd")
    case False
    with Cons.prems show ?thesis by auto
  next
    case run: True
    show ?thesis
    proof (cases "?passed = []")
      case True
      with run Cons.prems have
        "draw_loop env pr n nd (Some l) batches samples k = Some (Inr out)"
        by simp
      from Cons.IH [OF this] show ?thesis .
    next
      case passed: False
      from run passed Cons.prems obtain q where
        q: "compute_log_Q env pr (map c_x_prime ?passed) (Some (map c_log_q ?passed))
              (Some n) (Some (map c_log_j ?passed)) = Inr q"
        by (auto simp: Let_def split: sum.splits)
      from run passed q Cons.prems obtain x where
        x: "weigh env pr q (map c_x ?passed) = Inr x"
        by (auto simp: Let_def split: sum.splits)
      let ?accepted = "filter (\<lambda>s. isfinite (logP s) \<and> isfinite (logW s)) x"
      show ?thesis
      proof (cases "?accepted = []")
        case True
        with run passed q x Cons.prems have
          "draw_loop env pr n nd (Some l) batches samples k = Some (Inr out)"
          by (simp add: Let_def)
        from Cons.IH [OF this] show ?thesis .
      next
        case False
        with run passed q x Cons.prems have False
          by (simp add: Let_def no)
        then show ?thesis ..
      qed
    qed
  qed
qed

lemma draw_threshold_never_returns:
  assumes "''logl'' \<notin> set (names pr)"
  shows "draw env pr n (Some l) batches \<noteq> Some (Inr r)"
proof
  assume d: "draw env pr n (Some l) batches = Some (Inr r)"
  then obtain requested collected where
    lo: "draw_loop env (pr\<lparr> n_requested := requested \<rparr>) n (n_draw_of n (Some l)) (Some l)
           batches [] 0 = Some (Inr collected)"
    and al: "after_loop env (pr\<lparr> n_requested := requested \<rparr>) n (Some l) collected = Inr r"
    by (auto simp: draw_def split: sum.splits option.splits)
  have "collected = []"
    using draw_loop_threshold [OF _ lo] assms by simp
  with al show False
    by (simp add: after_loop_def cut_at_threshold_def argmax_def)
qed

text \<open>C6: a level with one trained flow, a request for one sample and a batch of one
  row inside the bounds. Without \<open>leaky\<close> the claim expects one new sample with
  \<open>logL \<ge> min_logL\<close> and its likelihood in the field \<open>logL\<close>; the source assigns the
  likelihood to the field \<open>logl\<close>, which the dtype does not have, and the draw ends in a
  \<open>ValueError\<close>. With \<open>leaky\<close> the draw has no threshold, the drawn sample is kept
  and its likelihood is stored in \<open>logL\<close> afterwards.\<close>

theorem draw_n_samples_flat:
  "draw_n_samples flat False (Fin 0) first_level 1 one_row = Some (Inl ValueError) \<and>
   map_option (map_sum id fst) (draw_n_samples flat True (Fin 0) first_level 1 one_row)
     = Some (Inr [fresh\<lparr> logL := Fin 1, logQ := Fin (ln 2), logW := Fin (- ln 2) \<rparr>])"
  by (simp add: draw_defs)

section \<open>Consistency of the meta-proposal\<close>






section \<open>NaN in the information and in the meta-proposal\<close>

text \<open>
  The information estimate of a step is its formula, unless that is NaN: then it is 0.
  It is never NaN.
\<close>

lemma information_value:
  "information Wt newZ oldz l prev = Fin 0 \<and>
     isnan (fsub (fadd (fmul (fexp (fsub Wt newZ)) l)
                       (fmul (fexp (fsub oldz newZ)) (fadd prev oldz))) newZ) \<or>
   information Wt newZ oldz l prev
     = fsub (fadd (fmul (fexp (fsub Wt newZ)) l)
                  (fmul (fexp (fsub oldz newZ)) (fadd prev oldz))) newZ \<and>
     \<not> isnan (information Wt newZ oldz l prev)"
  by (simp add: information_def Let_def)

lemma information_not_nan: "\<not> isnan (information Wt newZ oldz l prev)"
  by (simp add: information_def Let_def)

text \<open>
  What \<open>increment\<close> leaves in \<open>info\<close>: on a step where the evidence before, the
  evidence after and \<open>logL\<close> are finite, the estimate above is appended; on any other
  step \<open>info\<close> is untouched. Together with \<open>increment_total\<close>: no NaN makes
  \<open>increment\<close> raise.
\<close>

lemma increment_info_value:
  assumes "increment lse l n s = Inr s'"
  shows "info s' = (if isfinite (logZ s) \<and> isfinite (logZ s') \<and> isfinite l
                    then info s @ [information
                           (fadd (fadd (logw s) l)
                              (lse (Fin 0)
                                 (Fin (- 1 / real_of_int (case n of None \<Rightarrow> nlive s | Some k \<Rightarrow> k)))))
                           (logZ s') (logZ s) l (last (info s))]
                    else info s)"
  using assms unfolding increment_def Let_def
  by (auto split: if_splits)

text \<open>The evidence and the weight after a step.\<close>

lemma increment_logZ:
  assumes "increment lse l n s = Inr s'"
  shows "logZ s' = logaddexp (logZ s)
           (fadd (fadd (logw s) l)
              (lse (Fin 0)
                 (Fin (- 1 / real_of_int (case n of None \<Rightarrow> nlive s | Some k \<Rightarrow> k)))))"
    and "logw s' = fadd (logw s)
           (Fin (- 1 / real_of_int (case n of None \<Rightarrow> nlive s | Some k \<Rightarrow> k)))"
  using assms unfolding increment_def Let_def
  by (auto split: if_splits)

lemma logsubexp_step:
  assumes "t < 0"
  shows "logsubexp (Fin 0) (Fin t) = Fin (ln (1 - exp t))"
proof -
  from assms have "exp t < 1" by simp
  then show ?thesis
    by (simp add: logsubexp_def fsub_def flog1p_def)
qed

text \<open>
  Two steps from a fresh state of two live points: the first leaves \<open>info\<close> as it is
  (the evidence before it is \<open>-inf\<close>), the second finds both evidences finite and
  appends its estimate.
\<close>

lemma increment_information_step:
  "\<exists>s1 s2 v. increment logsubexp (Fin 1) None (init_state 2) = Inr s1 \<and> info s1 = [Fin 0] \<and>
     increment logsubexp (Fin 2) None s1 = Inr s2 \<and> isfinite (logZ s1) \<and> isfinite (logZ s2) \<and>
     info s2 = [Fin 0, v] \<and> \<not> isnan v"
proof -
  let ?s0 = "init_state 2"
  have inv0: "hist_inv ?s0"
    by (simp add: init_state_def hist_inv_reset)
  have f0: "nlive ?s0 = 2" "logZ ?s0 = NInf" "logw ?s0 = Fin 0" "info ?s0 = [Fin 0]"
    by (simp_all add: init_state_def reset_def)
  obtain s1 where s1: "increment logsubexp (Fin 1) None ?s0 = Inr s1"
    using increment_total [OF inv0, where n = None] f0 by auto
  have inv1: "hist_inv s1"
    by (rule hist_inv_increment [OF inv0 s1])
  have nl1: "nlive s1 = 2"
    using increment_nlive [OF s1] f0 by simp
  obtain s2 where s2: "increment logsubexp (Fin 2) None s1 = Inr s2"
    using increment_total [OF inv1, where n = None] nl1 by auto
  have step: "logsubexp (Fin 0) (Fin (- 1 / 2)) = Fin (ln (1 - exp (- 1 / 2)))"
    by (rule logsubexp_step) simp
  define w where "w = 1 + ln (1 - exp (- 1 / 2 :: real))"
  have z1: "logZ s1 = Fin w"
    using increment_logZ(1) [OF s1] f0 step
    by (simp add: w_def logaddexp_def fsub_def fl_gt_def fl_le_def flog1p_def)
  have w1: "logw s1 = Fin (- 1 / 2)"
    using increment_logZ(2) [OF s1] f0 by simp
  have i1: "info s1 = [Fin 0]"
    using increment_info_value [OF s1] f0 by simp
  have "logZ s2 = logaddexp (Fin w) (Fin (- 1 / 2 + 2 + ln (1 - exp (- 1 / 2))))"
    using increment_logZ(1) [OF s2] z1 w1 nl1 step by simp
  with logaddexp_Fin obtain c where z2: "logZ s2 = Fin c"
    by metis
  define v where "v = information
      (fadd (fadd (logw s1) (Fin 2)) (logsubexp (Fin 0) (Fin (- 1 / real_of_int (nlive s1)))))
      (logZ s2) (logZ s1) (Fin 2) (last (info s1))"
  have i2: "info s2 = [Fin 0, v]"
    using increment_info_value [OF s2] z1 z2 i1 by (simp add: v_def)
  have nn: "\<not> isnan v"
    unfolding v_def by (rule information_not_nan)
  from s1 s2 i1 i2 nn z1 z2 show ?thesis
    by auto
qed

text \<open>
  \<open>_compute_log_Q_combined\<close>, once the flows' part is computed, raises \<open>ValueError\<close>
  exactly when that part or its combination with the prior's term holds a NaN, and no
  value it returns holds a NaN.
\<close>

lemma combined_log_Q_raises:
  "(flows_log_Q env pr x lq k lj = Inr q
      \<longrightarrow> (compute_log_Q_combined env pr x lq k lj = Inl ValueError)
            = (list_ex isnan q \<or> list_ex isnan (map (logaddexp (initial_log_q pr)) q))) \<and>
   (compute_log_Q_combined env pr x lq k lj = Inr v \<longrightarrow> \<not> list_ex isnan v)"
proof (intro conjI impI)
  assume "flows_log_Q env pr x lq k lj = Inr q"
  then show "(compute_log_Q_combined env pr x lq k lj = Inl ValueError)
               = (list_ex isnan q \<or> list_ex isnan (map (logaddexp (initial_log_q pr)) q))"
    by (simp add: compute_log_Q_combined_def Let_def)
next
  assume "compute_log_Q_combined env pr x lq k lj = Inr v"
  from compute_log_Q_combined_bound [OF this] show "\<not> list_ex isnan v"
    by (auto simp: list_ex_iff)
qed

text \<open>
  \<open>_compute_log_Q_independent\<close> has no such test: for arrays of one length it returns
  the sum, NaN included.
\<close>

lemma independent_log_Q_value:
  "length lq = length lj \<Longrightarrow>
     compute_log_Q_independent (Some lq) (Some n) (Some lj)
       = Inr (map2 (\<lambda>a b. fadd (fadd a b) (log_int n)) lq lj)"
  by (simp add: compute_log_Q_independent_def vadd_def map2_map_map zip_map_fst_snd map_zip_map split_def)



end
